theory Spec2Isabelle
  imports Main "HOL-Library.Word"
begin

section \<open>Python values\<close>

text \<open>
  A Python \<open>str\<close> is a sequence of Unicode code points; it is modelled as a list of
  natural numbers (the code points), so that \<open>length\<close> counts what Python's \<open>len\<close>
  counts.  \<open>str\<close> turns an ASCII literal of the source into that representation.
  Python integers are unbounded: \<open>int\<close>.  \<open>None\<close> is \<open>None\<close> of an option type.
\<close>

type_synonym pystr = "nat list"

definition str :: "string \<Rightarrow> pystr" where
  "str cs = map of_char cs"

text \<open>Decimal rendering of an integer, as \<open>f"{i}"\<close> produces it.\<close>

fun dec_digits :: "nat \<Rightarrow> pystr" where
  "dec_digits n = (if n < 10 then [48 + n] else dec_digits (n div 10) @ [48 + n mod 10])"

declare dec_digits.simps [simp del]

definition str_of_int :: "int \<Rightarrow> pystr" where
  "str_of_int i = (if i < 0 then 45 # dec_digits (nat (- i)) else dec_digits (nat i))"

text \<open>The slice \<open>xs[-n:]\<close> for a positive \<open>n\<close>: the last \<open>n\<close> elements, all of them
  when the list is shorter.\<close>

definition slice_last :: "nat \<Rightarrow> 'a list \<Rightarrow> 'a list" where
  "slice_last n xs = drop (length xs - n) xs"


section \<open>Characters, \<open>str\<close> methods and \<open>int()\<close>\<close>

text \<open>
  \<open>str.isspace\<close>, which is also the class \<open>\s\<close> of a \<open>str\<close> pattern and the set
  \<open>str.strip()\<close> removes.
\<close>

definition is_space :: "nat \<Rightarrow> bool" where
  "is_space c \<longleftrightarrow>
     (9 \<le> c \<and> c \<le> 13) \<or> (28 \<le> c \<and> c \<le> 32) \<or> c = 0x85 \<or> c = 0xA0 \<or> c = 0x1680 \<or>
     (0x2000 \<le> c \<and> c \<le> 0x200A) \<or> c = 0x2028 \<or> c = 0x2029 \<or> c = 0x202F \<or>
     c = 0x205F \<or> c = 0x3000"

text \<open>
  The decimal digits of Unicode (category Nd, the class \<open>\d\<close> of a \<open>str\<close> pattern and
  the digits \<open>int()\<close> accepts) come in runs of ten, zero to nine; the table lists the
  code point of each zero (Unicode 14.0, the table of CPython 3.11).
\<close>

definition unicode_decimal_zeros :: "nat list" where
  "unicode_decimal_zeros =
     [48, 1632, 1776, 1984, 2406, 2534, 2662, 2790, 2918, 3046, 3174, 3302, 3430, 3558, 3664,
      3792, 3872, 4160, 4240, 6112, 6160, 6470, 6608, 6784, 6800, 6992, 7088, 7232, 7248, 42528,
      43216, 43264, 43472, 43504, 43600, 44016, 65296, 66720, 68912, 69734, 69872, 69942, 70096,
      70384, 70736, 70864, 71248, 71360, 71472, 71904, 72016, 72784, 73040, 73120, 92768, 92864,
      93008, 120782, 120792, 120802, 120812, 120822, 123200, 123632, 125264, 130032]"

definition is_decimal :: "nat \<Rightarrow> bool" where
  "is_decimal c = list_ex (\<lambda>z. z \<le> c \<and> c < z + 10) unicode_decimal_zeros"

definition decimal_value :: "nat \<Rightarrow> nat" where
  "decimal_value c =
     (case find (\<lambda>z. z \<le> c \<and> c < z + 10) unicode_decimal_zeros of
        None \<Rightarrow> 0 | Some z \<Rightarrow> c - z)"

text \<open>\<open>s.rstrip("\n")\<close>, \<open>s.strip()\<close> and \<open>s.strip('"')\<close>.\<close>

definition rstrip_chars :: "(nat \<Rightarrow> bool) \<Rightarrow> pystr \<Rightarrow> pystr" where
  "rstrip_chars p s = rev (dropWhile p (rev s))"

definition strip_chars :: "(nat \<Rightarrow> bool) \<Rightarrow> pystr \<Rightarrow> pystr" where
  "strip_chars p s = rstrip_chars p (dropWhile p s)"

text \<open>\<open>s.split(":")\<close>: the pieces between the separators, at least one piece.\<close>

fun split_on :: "nat \<Rightarrow> pystr \<Rightarrow> pystr list" where
  "split_on sep [] = [[]]"
| "split_on sep (c # cs) =
     (if c = sep then [] # split_on sep cs
      else (case split_on sep cs of [] \<Rightarrow> [[c]] | p # ps \<Rightarrow> (c # p) # ps))"

text \<open>The slice \<open>s[i:j]\<close> for \<open>0 \<le> i \<le> j\<close>.\<close>

definition py_slice :: "nat \<Rightarrow> nat \<Rightarrow> 'a list \<Rightarrow> 'a list" where
  "py_slice i j s = take (j - i) (drop i s)"

text \<open>
  \<open>int(s)\<close> for a \<open>str\<close>, \<open>None\<close> standing for the \<open>ValueError\<close>: surrounding
  whitespace is dropped (the characters of \<open>str.isspace\<close> except the four separators
  U+001C to U+001F), then an optional sign, then decimal digits of any script with single
  underscores allowed between digits; more than \<open>int_max_str_digits\<close> digits are refused
  (the default limit of CPython 3.11).
\<close>

definition int_space :: "nat \<Rightarrow> bool" where
  "int_space c \<longleftrightarrow> is_space c \<and> \<not> (28 \<le> c \<and> c \<le> 31)"

definition int_max_str_digits :: nat where
  "int_max_str_digits = 4300"

fun int_digits :: "nat \<Rightarrow> bool \<Rightarrow> pystr \<Rightarrow> nat option" where
  "int_digits acc prev [] = (if prev then Some acc else None)"
| "int_digits acc prev (c # cs) =
     (if is_decimal c then int_digits (10 * acc + decimal_value c) True cs
      else if c = 95 \<and> prev then int_digits acc False cs
      else None)"

definition int_unsigned :: "pystr \<Rightarrow> nat option" where
  "int_unsigned s =
     (if length (filter is_decimal s) > int_max_str_digits then None else int_digits 0 False s)"

definition py_int :: "pystr \<Rightarrow> int option" where
  "py_int s =
     (case strip_chars int_space s of
        [] \<Rightarrow> None
      | c # cs \<Rightarrow>
          if c = 45 then map_option (\<lambda>n. - int n) (int_unsigned cs)
          else if c = 43 then map_option int (int_unsigned cs)
          else map_option int (int_unsigned (c # cs)))"

text \<open>\<open>"%0wd" % n\<close> for a non-negative \<open>n\<close>: zero-padded to width \<open>w\<close>.\<close>

definition zero_pad :: "nat \<Rightarrow> nat \<Rightarrow> pystr" where
  "zero_pad w n = replicate (w - length (dec_digits n)) 48 @ dec_digits n"


section \<open>UTF-8\<close>

type_synonym byte = "8 word"

text \<open>
  \<open>s.encode("utf-8", errors="replace")\<close>: one to four bytes for a code point, and the
  single byte \<open>?\<close> for a lone surrogate (which UTF-8 cannot encode).
\<close>

definition utf8_encode_char :: "nat \<Rightarrow> byte list" where
  "utf8_encode_char c =
     (if c < 0x80 then [of_nat c]
      else if c < 0x800 then [of_nat (0xC0 + c div 64), of_nat (0x80 + c mod 64)]
      else if 0xD800 \<le> c \<and> c \<le> 0xDFFF then [63]
      else if c < 0x10000 then
        [of_nat (0xE0 + c div 4096), of_nat (0x80 + c div 64 mod 64), of_nat (0x80 + c mod 64)]
      else
        [of_nat (0xF0 + c div 262144), of_nat (0x80 + c div 4096 mod 64),
         of_nat (0x80 + c div 64 mod 64), of_nat (0x80 + c mod 64)])"

definition utf8_encode :: "pystr \<Rightarrow> byte list" where
  "utf8_encode s = concat (map utf8_encode_char s)"


section \<open>Regular expressions of the source\<close>

text \<open>
  The patterns of the source are sequences of greedy repetitions of a character class.
  An item \<open>Rep cls lo hi\<close> matches between \<open>lo\<close> and \<open>hi\<close> characters of \<open>cls\<close>
  (\<open>hi = None\<close>: unbounded).  The matcher is the backtracking one of Python's \<open>re\<close>: an
  item takes as many characters as it can, the rest of the pattern is tried, and on failure
  the item gives back one character at a time.  The result is the text each item matched.
  The first argument says where the pattern may end: \<open>dollar_end\<close> for a pattern closed by
  \<open>$\<close> (the end of the text, or just before a line feed that ends the text),
  \<open>full_end\<close> for \<open>re.fullmatch\<close>.
\<close>

datatype item = Rep "nat \<Rightarrow> bool" nat "nat option"

definition greedy_max :: "(nat \<Rightarrow> bool) \<Rightarrow> nat option \<Rightarrow> pystr \<Rightarrow> nat" where
  "greedy_max cls hi s =
     (let k = length (takeWhile cls s) in case hi of None \<Rightarrow> k | Some h \<Rightarrow> min h k)"

fun first_some :: "('a \<Rightarrow> 'b option) \<Rightarrow> 'a list \<Rightarrow> 'b option" where
  "first_some f [] = None"
| "first_some f (x # xs) = (case f x of Some y \<Rightarrow> Some y | None \<Rightarrow> first_some f xs)"

definition dollar_end :: "pystr \<Rightarrow> bool" where
  "dollar_end s \<longleftrightarrow> s = [] \<or> s = [10]"

definition full_end :: "pystr \<Rightarrow> bool" where
  "full_end s \<longleftrightarrow> s = []"

primrec match_items :: "(pystr \<Rightarrow> bool) \<Rightarrow> item list \<Rightarrow> pystr \<Rightarrow> pystr list option" where
  "match_items at_end [] s = (if at_end s then Some [] else None)"
| "match_items at_end (it # its) s =
     (case it of Rep cls lo hi \<Rightarrow>
        first_some (\<lambda>k. map_option ((#) (take k s)) (match_items at_end its (drop k s)))
          (rev [lo ..< Suc (greedy_max cls hi s)]))"

definition is_upper_az :: "nat \<Rightarrow> bool" where
  "is_upper_az c \<longleftrightarrow> 65 \<le> c \<and> c \<le> 90"

definition is_lower_az :: "nat \<Rightarrow> bool" where
  "is_lower_az c \<longleftrightarrow> 97 \<le> c \<and> c \<le> 122"

definition not_space :: "nat \<Rightarrow> bool" where
  "not_space c \<longleftrightarrow> \<not> is_space c"

definition not_newline :: "nat \<Rightarrow> bool" where
  "not_newline c \<longleftrightarrow> c \<noteq> 10"

definition is_colon :: "nat \<Rightarrow> bool" where
  "is_colon c \<longleftrightarrow> c = 58"

text \<open>
  \<open>SYSLOG_RE\<close>, item by item:
  \<^verbatim>\<open>^(?P<mon>[A-Z][a-z]{2})\s+(?P<day>\d{1,2})\s+(?P<time>\d{2}:\d{2}:\d{2})\s+(?P<host>\S+)\s+(?P<body>.*)$\<close>
\<close>

definition SYSLOG_RE :: "item list" where
  "SYSLOG_RE =
     [Rep is_upper_az 1 (Some 1), Rep is_lower_az 2 (Some 2),
      Rep is_space 1 None,
      Rep is_decimal 1 (Some 2),
      Rep is_space 1 None,
      Rep is_decimal 2 (Some 2), Rep is_colon 1 (Some 1),
      Rep is_decimal 2 (Some 2), Rep is_colon 1 (Some 1),
      Rep is_decimal 2 (Some 2),
      Rep is_space 1 None,
      Rep not_space 1 None,
      Rep is_space 1 None,
      Rep not_newline 0 None]"

record syslog_match =
  g_mon :: pystr
  g_day :: pystr
  g_time :: pystr
  g_host :: pystr
  g_body :: pystr

text \<open>\<open>SYSLOG_RE.match(line)\<close> with its named groups.\<close>

definition syslog_re_match :: "pystr \<Rightarrow> syslog_match option" where
  "syslog_re_match line =
     (case match_items dollar_end SYSLOG_RE line of
        None \<Rightarrow> None
      | Some gs \<Rightarrow>
          Some \<lparr>g_mon = gs ! 0 @ gs ! 1, g_day = gs ! 3,
                g_time = gs ! 5 @ gs ! 6 @ gs ! 7 @ gs ! 8 @ gs ! 9,
                g_host = gs ! 11, g_body = gs ! 13\<rparr>)"

text \<open>\<open>re.fullmatch(r"[+-]\d{4}", s)\<close>\<close>

definition is_sign :: "nat \<Rightarrow> bool" where
  "is_sign c \<longleftrightarrow> c = 43 \<or> c = 45"

definition TZ_RE :: "item list" where
  "TZ_RE = [Rep is_sign 1 (Some 1), Rep is_decimal 4 (Some 4)]"

definition tz_re_fullmatch :: "pystr \<Rightarrow> bool" where
  "tz_re_fullmatch s \<longleftrightarrow> match_items full_end TZ_RE s \<noteq> None"


section \<open>parser\_fgt\_v1.py\<close>

definition MONTHS :: "pystr \<rightharpoonup> int" where
  "MONTHS = map_of
     [(str ''Jan'', 1), (str ''Feb'', 2), (str ''Mar'', 3), (str ''Apr'', 4), (str ''May'', 5),
      (str ''Jun'', 6), (str ''Jul'', 7), (str ''Aug'', 8), (str ''Sep'', 9), (str ''Oct'', 10),
      (str ''Nov'', 11), (str ''Dec'', 12)]"

definition is_bad_control :: "nat \<Rightarrow> bool" where
  "is_bad_control c \<longleftrightarrow> c < 9 \<or> (11 \<le> c \<and> c < 32)"

definition has_binary_garbage :: "pystr \<Rightarrow> bool" where
  "has_binary_garbage s =
     (if 0 \<in> set s then True
      else let bad = length (filter is_bad_control s) in bad > 5)"

subsection \<open>\<open>parse_kv\<close>\<close>

text \<open>
  The scan of \<open>parse_kv\<close> moves an index \<open>i\<close> through \<open>body\<close>; the model carries the
  text from \<open>i\<close> on.  The dictionary \<open>out\<close> is a map; a later value of a key replaces the
  earlier one, as the assignment \<open>out[key] = value\<close> does.
\<close>

definition skip_spaces :: "pystr \<Rightarrow> pystr" where
  "skip_spaces s = dropWhile (\<lambda>c. c = 32) s"

text \<open>The loop over a quoted value, entered after the opening quote: the characters
  collected so far, the text left; the result is the value and the text after it.\<close>

fun scan_quoted :: "pystr \<Rightarrow> pystr \<Rightarrow> pystr \<times> pystr" where
  "scan_quoted v [] = (v, [])"
| "scan_quoted v [ch] = (if ch = 34 then (v, []) else (v @ [ch], []))"
| "scan_quoted v (ch # nxt # rest) =
     (if ch = 92 then scan_quoted (v @ [nxt]) rest
      else if ch = 34 then (v, nxt # rest)
      else scan_quoted (v @ [ch]) (nxt # rest))"

lemma length_scan_quoted: "length (snd (scan_quoted v s)) \<le> length s"
  by (induction v s rule: scan_quoted.induct) auto

lemma length_skip_spaces: "length (skip_spaces s) \<le> length s"
  by (simp add: skip_spaces_def length_dropWhile_le)

function parse_kv_loop :: "(pystr \<rightharpoonup> pystr) \<Rightarrow> pystr \<Rightarrow> (pystr \<rightharpoonup> pystr)" where
  "parse_kv_loop out s =
     (let s1 = skip_spaces s in
      if s1 = [] then out
      else
        let key = takeWhile (\<lambda>c. c \<noteq> 61 \<and> c \<noteq> 32) s1;
            s2 = dropWhile (\<lambda>c. c \<noteq> 61 \<and> c \<noteq> 32) s1
        in if key = [] \<or> s2 = [] \<or> hd s2 \<noteq> 61 then out
           else
             let s3 = tl s2 in
             if s3 \<noteq> [] \<and> hd s3 = 34 then
               let q = scan_quoted [] (tl s3)
               in parse_kv_loop (out(key \<mapsto> fst q)) (skip_spaces (snd q))
             else
               let v = takeWhile (\<lambda>c. c \<noteq> 32) s3;
                   s4 = dropWhile (\<lambda>c. c \<noteq> 32) s3
               in parse_kv_loop (out(key \<mapsto> v)) (skip_spaces s4))"
  by pat_completeness auto
termination
proof (relation "measure (\<lambda>(out, s). length s)", goal_cases)
  case 1
  show ?case by simp
next
  case (2 out s s1 key s2 s3 q)
  have a: "length s1 \<le> length s" using 2(1) by (simp add: length_skip_spaces)
  have b: "length s2 \<le> length s1" using 2 by (simp add: length_dropWhile_le)
  have c: "length s3 < length s2" using 2 by (cases s2) auto
  have d: "length (tl s3) \<le> length s3" by simp
  have "q = scan_quoted [] (tl s3)" using 2 by blast
  then have e: "length (snd q) \<le> length (tl s3)" by (simp only: length_scan_quoted)
  have f: "length (skip_spaces (snd q)) \<le> length (snd q)" by (rule length_skip_spaces)
  from a b c d e f show ?case by simp
next
  case (3 out s s1 key s2 s3 v s4)
  have a: "length s1 \<le> length s" using 3(1) by (simp add: length_skip_spaces)
  have b: "length s2 \<le> length s1" using 3 by (simp add: length_dropWhile_le)
  have c: "length s3 < length s2" using 3 by (cases s2) auto
  have "s4 = dropWhile (\<lambda>c. c \<noteq> 32) s3" using 3 by blast
  then have e: "length s4 \<le> length s3" by (simp only: length_dropWhile_le)
  have f: "length (skip_spaces s4) \<le> length s4" by (rule length_skip_spaces)
  from a b c e f show ?case by simp
qed

declare parse_kv_loop.simps [simp del]

definition parse_kv :: "pystr \<Rightarrow> (pystr \<rightharpoonup> pystr)" where
  "parse_kv body = parse_kv_loop Map.empty body"


subsection \<open>\<open>datetime\<close>\<close>

text \<open>
  A \<open>datetime.datetime\<close> value.  \<open>dt_tzinfo\<close> is the fixed offset from UTC of an aware
  value, in microseconds (the resolution of \<open>timedelta\<close>), and \<open>None\<close> for a naive one.
\<close>

record datetime =
  dt_year :: nat
  dt_month :: nat
  dt_day :: nat
  dt_hour :: nat
  dt_minute :: nat
  dt_second :: nat
  dt_microsecond :: nat
  dt_tzinfo :: "int option"

definition is_leap :: "int \<Rightarrow> bool" where
  "is_leap y \<longleftrightarrow> y mod 4 = 0 \<and> (y mod 100 \<noteq> 0 \<or> y mod 400 = 0)"

definition days_in_month :: "int \<Rightarrow> int \<Rightarrow> int" where
  "days_in_month y m =
     (if m = 2 then (if is_leap y then 29 else 28)
      else if m = 4 \<or> m = 6 \<or> m = 9 \<or> m = 11 then 30 else 31)"

text \<open>The constructor \<open>datetime.datetime(year, month, day, hour, minute, second)\<close>;
  \<open>None\<close> stands for the exception it raises on a field out of range.\<close>

definition mk_datetime :: "int \<Rightarrow> int \<Rightarrow> int \<Rightarrow> int \<Rightarrow> int \<Rightarrow> int \<Rightarrow> datetime option" where
  "mk_datetime y mo d h mi s =
     (if 1 \<le> y \<and> y \<le> 9999 \<and> 1 \<le> mo \<and> mo \<le> 12 \<and> 1 \<le> d \<and> d \<le> days_in_month y mo \<and>
         0 \<le> h \<and> h \<le> 23 \<and> 0 \<le> mi \<and> mi \<le> 59 \<and> 0 \<le> s \<and> s \<le> 59
      then Some \<lparr>dt_year = nat y, dt_month = nat mo, dt_day = nat d, dt_hour = nat h,
                 dt_minute = nat mi, dt_second = nat s, dt_microsecond = 0, dt_tzinfo = None\<rparr>
      else None)"

definition ascii_digits :: "pystr \<Rightarrow> bool" where
  "ascii_digits s = list_all (\<lambda>c. 48 \<le> c \<and> c \<le> 57) s"

definition ascii_nat :: "pystr \<Rightarrow> nat" where
  "ascii_nat s = foldl (\<lambda>a c. 10 * a + (c - 48)) 0 s"

text \<open>The shape \<open>YYYY-MM-DDTHH:MM:SS\<close> in ASCII digits.\<close>

definition iso_shape :: "pystr \<Rightarrow> bool" where
  "iso_shape s \<longleftrightarrow>
     length s = 19 \<and> ascii_digits (py_slice 0 4 s) \<and> s ! 4 = 45 \<and> ascii_digits (py_slice 5 7 s) \<and>
     s ! 7 = 45 \<and> ascii_digits (py_slice 8 10 s) \<and> s ! 10 = 84 \<and> ascii_digits (py_slice 11 13 s) \<and>
     s ! 13 = 58 \<and> ascii_digits (py_slice 14 16 s) \<and> s ! 16 = 58 \<and> ascii_digits (py_slice 17 19 s)"

definition iso_fields :: "pystr \<Rightarrow> datetime option" where
  "iso_fields s =
     mk_datetime (int (ascii_nat (py_slice 0 4 s))) (int (ascii_nat (py_slice 5 7 s)))
       (int (ascii_nat (py_slice 8 10 s))) (int (ascii_nat (py_slice 11 13 s)))
       (int (ascii_nat (py_slice 14 16 s))) (int (ascii_nat (py_slice 17 19 s)))"

text \<open>
  \<open>datetime.datetime.fromisoformat\<close>, \<open>None\<close> standing for its \<open>ValueError\<close>.  A text of
  the shape \<open>YYYY-MM-DDTHH:MM:SS\<close> whose fields form a valid date and time gives that
  value in every version of Python.  Which other texts are accepted depends on the
  version; on those the function is the parameter \<open>ext\<close>.
\<close>

definition fromisoformat :: "(pystr \<Rightarrow> datetime option) \<Rightarrow> pystr \<Rightarrow> datetime option" where
  "fromisoformat ext s =
     (if iso_shape s then (case iso_fields s of Some dt \<Rightarrow> Some dt | None \<Rightarrow> ext s)
      else ext s)"

text \<open>\<open>dt.isoformat()\<close>\<close>

definition format_offset :: "int \<Rightarrow> pystr" where
  "format_offset off =
     (let a = nat \<bar>off\<bar>;
          hh = a div 3600000000;
          mm = a mod 3600000000 div 60000000;
          ss = a mod 60000000 div 1000000;
          us = a mod 1000000
      in (if off < 0 then str ''-'' else str ''+'') @ zero_pad 2 hh @ str '':'' @ zero_pad 2 mm @
         (if ss \<noteq> 0 \<or> us \<noteq> 0 then str '':'' @ zero_pad 2 ss else []) @
         (if us \<noteq> 0 then str ''.'' @ zero_pad 6 us else []))"

definition isoformat :: "datetime \<Rightarrow> pystr" where
  "isoformat dt =
     zero_pad 4 (dt_year dt) @ str ''-'' @ zero_pad 2 (dt_month dt) @ str ''-'' @
     zero_pad 2 (dt_day dt) @ str ''T'' @ zero_pad 2 (dt_hour dt) @ str '':'' @
     zero_pad 2 (dt_minute dt) @ str '':'' @ zero_pad 2 (dt_second dt) @
     (if dt_microsecond dt \<noteq> 0 then str ''.'' @ zero_pad 6 (dt_microsecond dt) else []) @
     (case dt_tzinfo dt of None \<Rightarrow> [] | Some off \<Rightarrow> format_offset off)"

text \<open>\<open>datetime.timezone(datetime.timedelta(hours=h, minutes=m))\<close>: the offset in
  microseconds; \<open>None\<close> stands for the \<open>ValueError\<close> raised unless the offset is strictly
  between minus and plus 24 hours.\<close>

definition timezone_hm :: "int \<Rightarrow> int \<Rightarrow> int option" where
  "timezone_hm h m =
     (let off = (h * 3600 + m * 60) * 1000000
      in if - 86400000000 < off \<and> off < 86400000000 then Some off else None)"

subsection \<open>\<open>parse_event_ts\<close>\<close>

text \<open>The normalised \<open>tz\<close> value: \<open>+HH:MM\<close>, or \<open>None\<close>.\<close>

definition tz_norm_of :: "(pystr \<rightharpoonup> pystr) \<Rightarrow> pystr option" where
  "tz_norm_of kv =
     (case kv (str ''tz'') of
        None \<Rightarrow> None
      | Some tz \<Rightarrow>
          if tz = [] then None
          else
            let tz_clean = strip_chars (\<lambda>c. c = 34) (strip_chars is_space tz)
            in if tz_re_fullmatch tz_clean
               then Some (take 3 tz_clean @ str '':'' @ drop 3 tz_clean)
               else None)"

text \<open>
  The statements that attach the offset and render the timestamp; the source has them
  twice, once in each \<open>try\<close> block.  \<open>None\<close> stands for an exception raised inside the
  block.
\<close>

definition render_ts :: "datetime \<Rightarrow> pystr option \<Rightarrow> pystr option" where
  "render_ts dt tz_norm =
     (case tz_norm of
        None \<Rightarrow> Some (isoformat dt)
      | Some tzn \<Rightarrow>
          if tzn = [] then None
          else
            let sgn = (if hd tzn = 43 then 1 else - 1) in
            (case py_int (py_slice 1 3 tzn) of
               None \<Rightarrow> None
             | Some hh \<Rightarrow>
                 (case py_int (py_slice 4 6 tzn) of
                    None \<Rightarrow> None
                  | Some mm \<Rightarrow>
                      (case timezone_hm (sgn * hh) (sgn * mm) of
                         None \<Rightarrow> None
                       | Some off \<Rightarrow> Some (isoformat (dt\<lparr>dt_tzinfo := Some off\<rparr>))))))"

text \<open>The first \<open>try\<close> block: the \<open>date\<close> and \<open>time\<close> keys.  \<open>None\<close>: the block was
  skipped, or left by an exception.\<close>

definition explicit_ts ::
  "(pystr \<Rightarrow> datetime option) \<Rightarrow> (pystr \<rightharpoonup> pystr) \<Rightarrow> pystr option \<Rightarrow> pystr option" where
  "explicit_ts ext kv tz_norm =
     (case kv (str ''date'') of
        None \<Rightarrow> None
      | Some date_s \<Rightarrow>
          (case kv (str ''time'') of
             None \<Rightarrow> None
           | Some time_s \<Rightarrow>
               if date_s = [] \<or> time_s = [] then None
               else (case fromisoformat ext (date_s @ str ''T'' @ time_s) of
                       None \<Rightarrow> None
                     | Some dt \<Rightarrow> render_ts dt tz_norm)))"

text \<open>The second \<open>try\<close> block: the envelope's month, day and time with the contextual
  year.  \<open>None\<close> is the \<open>None\<close> its \<open>except\<close> clause returns.\<close>

definition fallback_ts :: "int \<Rightarrow> int \<Rightarrow> int \<Rightarrow> pystr \<Rightarrow> pystr option \<Rightarrow> pystr option" where
  "fallback_ts default_year fallback_mon fallback_day fallback_time tz_norm =
     (case map py_int (split_on 58 fallback_time) of
        [Some hh, Some mm, Some ss] \<Rightarrow>
          (case mk_datetime default_year fallback_mon fallback_day hh mm ss of
             None \<Rightarrow> None
           | Some dt \<Rightarrow> render_ts dt tz_norm)
      | _ \<Rightarrow> None)"

definition parse_event_ts ::
  "(pystr \<Rightarrow> datetime option) \<Rightarrow> (pystr \<rightharpoonup> pystr) \<Rightarrow> int \<Rightarrow> int \<Rightarrow> int \<Rightarrow> pystr \<Rightarrow> pystr option" where
  "parse_event_ts ext kv default_year fallback_mon fallback_day fallback_time =
     (let tz_norm = tz_norm_of kv in
      case explicit_ts ext kv tz_norm of
        Some ts \<Rightarrow> Some ts
      | None \<Rightarrow> fallback_ts default_year fallback_mon fallback_day fallback_time tz_norm)"

subsection \<open>\<open>parse_fortigate_line\<close>\<close>

text \<open>
  The library functions the parser calls and that are taken as given: SHA-256 (the
  hexadecimal digest of a byte string) and \<open>fromisoformat\<close> outside the canonical shape.
\<close>

record pylib =
  sha256_hexdigest :: "byte list \<Rightarrow> pystr"
  fromisoformat_ext :: "pystr \<Rightarrow> datetime option"

definition stable_event_id :: "pylib \<Rightarrow> pystr \<Rightarrow> pystr" where
  "stable_event_id lib raw_line = take 32 (sha256_hexdigest lib (utf8_encode raw_line))"

definition to_int :: "pystr option \<Rightarrow> int option" where
  "to_int x = (case x of None \<Rightarrow> None | Some s \<Rightarrow> py_int s)"

record event =
  ev_schema_version :: int
  ev_event_id :: pystr
  ev_host :: pystr
  ev_event_ts :: "pystr option"
  ev_type :: "pystr option"
  ev_subtype :: "pystr option"
  ev_level :: "pystr option"
  ev_devname :: "pystr option"
  ev_devid :: "pystr option"
  ev_vd :: "pystr option"
  ev_action :: "pystr option"
  ev_policyid :: "int option"
  ev_proto :: "int option"
  ev_service :: "pystr option"
  ev_srcip :: "pystr option"
  ev_srcport :: "int option"
  ev_srcintf :: "pystr option"
  ev_srcintfrole :: "pystr option"
  ev_dstip :: "pystr option"
  ev_dstport :: "int option"
  ev_dstintf :: "pystr option"
  ev_dstintfrole :: "pystr option"
  ev_sentbyte :: "int option"
  ev_rcvdbyte :: "int option"
  ev_sentpkt :: "int option"
  ev_rcvdpkt :: "int option"
  ev_raw :: pystr
  ev_parse_status :: pystr

record parse_dlq =
  pd_reason :: pystr
  pd_raw :: pystr

datatype pyexn = ValueError

text \<open>The dictionary \<open>event\<close> as line 156 of the source builds it, and the adjustment of
  \<open>parse_status\<close> that follows.\<close>

definition build_event ::
  "pylib \<Rightarrow> pystr \<Rightarrow> pystr \<Rightarrow> pystr option \<Rightarrow> (pystr \<rightharpoonup> pystr) \<Rightarrow> event" where
  "build_event lib raw_line host event_ts kv =
     \<lparr>ev_schema_version = 1,
      ev_event_id = stable_event_id lib raw_line,
      ev_host = host,
      ev_event_ts = event_ts,
      ev_type = kv (str ''type''),
      ev_subtype = kv (str ''subtype''),
      ev_level = kv (str ''level''),
      ev_devname = kv (str ''devname''),
      ev_devid = kv (str ''devid''),
      ev_vd = kv (str ''vd''),
      ev_action = kv (str ''action''),
      ev_policyid = to_int (kv (str ''policyid'')),
      ev_proto = to_int (kv (str ''proto'')),
      ev_service = kv (str ''service''),
      ev_srcip = kv (str ''srcip''),
      ev_srcport = to_int (kv (str ''srcport'')),
      ev_srcintf = kv (str ''srcintf''),
      ev_srcintfrole = kv (str ''srcintfrole''),
      ev_dstip = kv (str ''dstip''),
      ev_dstport = to_int (kv (str ''dstport'')),
      ev_dstintf = kv (str ''dstintf''),
      ev_dstintfrole = kv (str ''dstintfrole''),
      ev_sentbyte = to_int (kv (str ''sentbyte'')),
      ev_rcvdbyte = to_int (kv (str ''rcvdbyte'')),
      ev_sentpkt = to_int (kv (str ''sentpkt'')),
      ev_rcvdpkt = to_int (kv (str ''rcvdpkt'')),
      ev_raw = raw_line,
      ev_parse_status = str ''ok''\<rparr>"

definition mark_partial :: "event \<Rightarrow> event" where
  "mark_partial ev =
     (let core_missing = (ev_type ev = None \<or> ev_subtype ev = None \<or> ev_action ev = None)
      in if core_missing then ev\<lparr>ev_parse_status := str ''partial''\<rparr> else ev)"

definition dlq_of :: "string \<Rightarrow> pystr \<Rightarrow> parse_dlq" where
  "dlq_of reason raw_line = \<lparr>pd_reason = str reason, pd_raw = raw_line\<rparr>"

text \<open>
  The result is the pair \<open>(event, dlq)\<close> the source returns, or the exception that leaves
  the function: the only statement outside a \<open>try\<close> block that can raise is
  \<open>int(m.group("day"))\<close>.  \<open>parse_kv\<close> raises nothing, so the handler that would return
  \<open>kv_parse_exception\<close> has no branch here.
\<close>

definition parse_fortigate_line ::
  "pylib \<Rightarrow> pystr \<Rightarrow> int \<Rightarrow> pyexn + (event option \<times> parse_dlq option)" where
  "parse_fortigate_line lib raw_line now_year =
     (let line = rstrip_chars (\<lambda>c. c = 10) raw_line in
      if line = [] then Inr (None, Some (dlq_of ''empty_line'' raw_line))
      else if has_binary_garbage line then Inr (None, Some (dlq_of ''non_text_or_binary'' raw_line))
      else
        (case syslog_re_match line of
           None \<Rightarrow> Inr (None, Some (dlq_of ''syslog_header_parse_fail'' raw_line))
         | Some m \<Rightarrow>
             (case py_int (g_day m) of
                None \<Rightarrow> Inl ValueError
              | Some day \<Rightarrow>
                  (case MONTHS (g_mon m) of
                     None \<Rightarrow> Inr (None, Some (dlq_of ''invalid_month'' raw_line))
                   | Some mon_i \<Rightarrow>
                       if mon_i = 0 then Inr (None, Some (dlq_of ''invalid_month'' raw_line))
                       else
                         let kv = parse_kv (g_body m);
                             event_ts = parse_event_ts (fromisoformat_ext lib) kv now_year mon_i
                                          day (g_time m);
                             event = build_event lib raw_line (g_host m) event_ts kv
                         in Inr (Some (mark_partial event), None)))))"


section \<open>checkpoint.py: the checkpoint state\<close>

text \<open>
  The checkpoint is a dictionary in the source; its shape is the one \<open>load_checkpoint\<close>
  creates.  The key \<open>"completed"\<close> is read with \<open>get(..., [])\<close> and \<open>setdefault\<close>, so
  the model lets it be absent (\<open>None\<close>).
\<close>

record active_ptr =
  ap_path :: pystr
  ap_inode :: "int option"
  ap_offset :: int
  ap_last_event_ts_seen :: "pystr option"

record completed_rec =
  cr_key :: pystr
  cr_path :: pystr
  cr_inode :: int
  cr_size :: int
  cr_mtime :: int
  cr_completed_at :: int

record counters =
  lines_in_total :: int
  bytes_in_total :: int
  events_out_total :: int
  dlq_out_total :: int
  parse_fail_total :: int
  write_fail_total :: int
  checkpoint_fail_total :: int

record ckstate =
  schema_version :: int
  active :: active_ptr
  completed :: "completed_rec list option"
  counters :: counters
  updated_at :: int

text \<open>\<open>ck.get("completed", [])\<close>\<close>

definition ledger :: "ckstate \<Rightarrow> completed_rec list" where
  "ledger ck = (case completed ck of None \<Rightarrow> [] | Some l \<Rightarrow> l)"

definition completed_key :: "pystr \<Rightarrow> int \<Rightarrow> int \<Rightarrow> int \<Rightarrow> pystr" where
  "completed_key path inode sz mtime =
     path @ str ''|'' @ str_of_int inode @ str ''|'' @ str_of_int sz @ str ''|'' @ str_of_int mtime"

text \<open>The loop of \<open>is_completed\<close>, with its early return.\<close>

fun is_completed_loop :: "pystr \<Rightarrow> completed_rec list \<Rightarrow> bool" where
  "is_completed_loop k [] = False"
| "is_completed_loop k (item # items) =
     (if cr_key item = k then True else is_completed_loop k items)"

definition is_completed :: "ckstate \<Rightarrow> pystr \<Rightarrow> int \<Rightarrow> int \<Rightarrow> int \<Rightarrow> bool" where
  "is_completed ck path inode sz mtime =
     is_completed_loop (completed_key path inode sz mtime) (ledger ck)"

text \<open>The record \<open>mark_completed\<close> appends; \<open>now\<close> is the reading of \<open>int(time.time())\<close>.\<close>

definition new_completed_rec :: "int \<Rightarrow> pystr \<Rightarrow> int \<Rightarrow> int \<Rightarrow> int \<Rightarrow> completed_rec" where
  "new_completed_rec now path inode sz mtime =
     \<lparr>cr_key = completed_key path inode sz mtime, cr_path = path, cr_inode = inode,
      cr_size = sz, cr_mtime = mtime, cr_completed_at = now\<rparr>"

definition mark_completed :: "int \<Rightarrow> ckstate \<Rightarrow> pystr \<Rightarrow> int \<Rightarrow> int \<Rightarrow> int \<Rightarrow> ckstate" where
  "mark_completed now ck path inode sz mtime =
     (let appended = ledger ck @ [new_completed_rec now path inode sz mtime]
      in if length appended > 5000
         then ck\<lparr>completed := Some (slice_last 5000 appended)\<rparr>
         else ck\<lparr>completed := Some appended\<rparr>)"

text \<open>A sequence of \<open>mark_completed\<close> calls; each call is the clock reading and the
  file identity \<open>(now, path, inode, size, mtime)\<close>.\<close>

type_synonym mark_call = "int \<times> pystr \<times> int \<times> int \<times> int"

fun rec_of_call :: "mark_call \<Rightarrow> completed_rec" where
  "rec_of_call (now, path, inode, sz, mtime) = new_completed_rec now path inode sz mtime"

fun mark_completed_call :: "ckstate \<Rightarrow> mark_call \<Rightarrow> ckstate" where
  "mark_completed_call ck (now, path, inode, sz, mtime) = mark_completed now ck path inode sz mtime"

definition mark_completed_calls :: "ckstate \<Rightarrow> mark_call list \<Rightarrow> ckstate" where
  "mark_completed_calls ck calls = foldl mark_completed_call ck calls"

text \<open>The state \<open>load_checkpoint\<close> returns when no checkpoint file exists; \<open>now\<close> is
  the reading of \<open>int(time.time())\<close>.\<close>

definition default_checkpoint :: "int \<Rightarrow> ckstate" where
  "default_checkpoint now =
     \<lparr>schema_version = 1,
      active = \<lparr>ap_path = str ''/data/fortigate/fortigate.log'', ap_inode = None, ap_offset = 0,
                ap_last_event_ts_seen = None\<rparr>,
      completed = Some [],
      counters = \<lparr>lines_in_total = 0, bytes_in_total = 0, events_out_total = 0,
                  dlq_out_total = 0, parse_fail_total = 0, write_fail_total = 0,
                  checkpoint_fail_total = 0\<rparr>,
      updated_at = now\<rparr>"


section \<open>source\_file.py\<close>

subsection \<open>Decoding and text-mode reading\<close>

text \<open>
  \<open>bytes.decode("utf-8", errors="replace")\<close>.  \<open>utf8_step\<close> reads one character from the
  front of a non-empty byte string and says how many bytes it consumed; an ill-formed or
  truncated sequence gives U+FFFD and consumes its longest well-formed prefix (at least
  one byte), as CPython's decoder does.
\<close>

definition is_cont :: "nat \<Rightarrow> bool" where
  "is_cont b \<longleftrightarrow> 0x80 \<le> b \<and> b < 0xC0"

fun utf8_step :: "nat list \<Rightarrow> nat \<times> nat" where
  "utf8_step [] = (0xFFFD, 1)"
| "utf8_step (b # r) =
     (if b < 0x80 then (b, 1)
      else if b < 0xC2 then (0xFFFD, 1)
      else if b < 0xE0 then
        (case r of
           [] \<Rightarrow> (0xFFFD, 1)
         | b2 # r2 \<Rightarrow> if is_cont b2 then ((b - 0xC0) * 64 + (b2 - 0x80), 2) else (0xFFFD, 1))
      else if b < 0xF0 then
        (case r of
           [] \<Rightarrow> (0xFFFD, 1)
         | b2 # r2 \<Rightarrow>
             if \<not> is_cont b2 \<or> (b = 0xE0 \<and> b2 < 0xA0) \<or> (b = 0xED \<and> 0xA0 \<le> b2) then (0xFFFD, 1)
             else
               (case r2 of
                  [] \<Rightarrow> (0xFFFD, 2)
                | b3 # r3 \<Rightarrow>
                    if is_cont b3
                    then ((b - 0xE0) * 4096 + (b2 - 0x80) * 64 + (b3 - 0x80), 3)
                    else (0xFFFD, 2)))
      else if b < 0xF5 then
        (case r of
           [] \<Rightarrow> (0xFFFD, 1)
         | b2 # r2 \<Rightarrow>
             if \<not> is_cont b2 \<or> (b = 0xF0 \<and> b2 < 0x90) \<or> (b = 0xF4 \<and> 0x90 \<le> b2) then (0xFFFD, 1)
             else
               (case r2 of
                  [] \<Rightarrow> (0xFFFD, 2)
                | b3 # r3 \<Rightarrow>
                    if \<not> is_cont b3 then (0xFFFD, 2)
                    else
                      (case r3 of
                         [] \<Rightarrow> (0xFFFD, 3)
                       | b4 # r4 \<Rightarrow>
                           if is_cont b4
                           then ((b - 0xF0) * 262144 + (b2 - 0x80) * 4096 + (b3 - 0x80) * 64 +
                                 (b4 - 0x80), 4)
                           else (0xFFFD, 3))))
      else (0xFFFD, 1))"

lemma utf8_step_consumes: "0 < snd (utf8_step bs)"
  by (cases bs) (auto split: list.splits)

function utf8_decode_nat :: "nat list \<Rightarrow> pystr" where
  "utf8_decode_nat bs =
     (if bs = [] then []
      else fst (utf8_step bs) # utf8_decode_nat (drop (snd (utf8_step bs)) bs))"
  by pat_completeness auto
termination
proof (relation "measure length", goal_cases)
  case 1
  show ?case by simp
next
  case (2 bs)
  then show ?case using utf8_step_consumes [of bs] by simp
qed

declare utf8_decode_nat.simps [simp del]

definition utf8_decode :: "byte list \<Rightarrow> pystr" where
  "utf8_decode bs = utf8_decode_nat (map unat bs)"

text \<open>
  A file opened in text mode with the default \<open>newline=None\<close>: \<open>\r\n\<close> and a lone \<open>\r\<close>
  are both delivered as \<open>\n\<close>, and iterating over the file gives the lines, each with its
  \<open>\n\<close> except possibly the last.
\<close>

fun translate_newlines :: "pystr \<Rightarrow> pystr" where
  "translate_newlines [] = []"
| "translate_newlines [c] = (if c = 13 then [10] else [c])"
| "translate_newlines (c # d # s) =
     (if c = 13 then (if d = 10 then 10 # translate_newlines s else 10 # translate_newlines (d # s))
      else c # translate_newlines (d # s))"

fun split_lines_acc :: "pystr \<Rightarrow> pystr \<Rightarrow> pystr list" where
  "split_lines_acc cur [] = (if cur = [] then [] else [cur])"
| "split_lines_acc cur (c # s) =
     (if c = 10 then (cur @ [c]) # split_lines_acc [] s else split_lines_acc (cur @ [c]) s)"

definition text_lines :: "byte list \<Rightarrow> pystr list" where
  "text_lines data = split_lines_acc [] (translate_newlines (utf8_decode data))"

subsection \<open>\<open>read_whole_file_lines\<close>\<close>

text \<open>The result of \<open>stat_file\<close>: inode, size, modification time in whole seconds.\<close>

type_synonym file_stat = "int \<times> int \<times> int"

record source_pos =
  sp_path :: pystr
  sp_inode :: int
  sp_offset :: "int option"
  sp_size :: int
  sp_mtime :: int

definition endswith :: "pystr \<Rightarrow> pystr \<Rightarrow> bool" where
  "endswith s suffix \<longleftrightarrow> length suffix \<le> length s \<and> drop (length s - length suffix) s = suffix"

text \<open>The loop of the plain branch: each line is yielded with the running offset, which
  then grows by the length of the line encoded again.\<close>

fun plain_lines :: "pystr \<Rightarrow> file_stat \<Rightarrow> int \<Rightarrow> pystr list \<Rightarrow> (pystr \<times> source_pos) list" where
  "plain_lines path st offset [] = []"
| "plain_lines path st offset (line # lines) =
     (line, \<lparr>sp_path = path, sp_inode = fst st, sp_offset = Some offset,
             sp_size = fst (snd st), sp_mtime = snd (snd st)\<rparr>) #
     plain_lines path st (offset + int (length (utf8_encode line))) lines"

definition gz_lines :: "pystr \<Rightarrow> file_stat \<Rightarrow> pystr list \<Rightarrow> (pystr \<times> source_pos) list" where
  "gz_lines path st lines =
     map (\<lambda>line. (line, \<lparr>sp_path = path, sp_inode = fst st, sp_offset = None,
                          sp_size = fst (snd st), sp_mtime = snd (snd st)\<rparr>)) lines"

text \<open>
  \<open>read_whole_file_lines(path)\<close>, given what the file system returns: \<open>st\<close> is the result
  of \<open>stat_file(path)\<close> and \<open>data\<close> the bytes the text layer reads, that is the bytes of
  the file, or for a \<open>.gz\<close> file the bytes \<open>gzip\<close> uncompresses it to.  The generator is
  given as the list of what it yields.
\<close>

definition read_whole_file_lines :: "pystr \<Rightarrow> file_stat \<Rightarrow> byte list \<Rightarrow> (pystr \<times> source_pos) list" where
  "read_whole_file_lines path st data =
     (let is_gz = endswith path (str ''.gz'')
      in if is_gz then gz_lines path st (text_lines data)
         else plain_lines path st 0 (text_lines data))"

subsection \<open>\<open>follow_active_binary\<close>\<close>




section \<open>sink\_jsonl.py and main.py: the router\<close>













subsection \<open>\<open>process_rotated_files\<close>\<close>





subsection \<open>\<open>process_active_tail\<close>\<close>








section \<open>checkpoint.py: saving and loading\<close>









section \<open>main.py: one turn of the loop\<close>









section \<open>The envelope grammar and the dead-letter rules, as the specification words them\<close>

text \<open>
  The line after the trim of its trailing line feeds; the test for binary content (a NUL,
  or more than 5 control characters: code points below 9, or 11 to 31 inclusive); and the
  envelope: a capitalised 3-letter month, a day of 1 or 2 digits, a time \<open>HH:MM:SS\<close>, a
  host that is one token without whitespace, and the rest of the line as the body, the
  five parts separated by runs of whitespace.
\<close>

definition trimmed :: "pystr \<Rightarrow> pystr" where
  "trimmed raw = rstrip_chars (\<lambda>c. c = 10) raw"

definition non_text :: "pystr \<Rightarrow> bool" where
  "non_text line \<longleftrightarrow>
     0 \<in> set line \<or> 5 < length (filter (\<lambda>c. c < 9 \<or> (11 \<le> c \<and> c \<le> 31)) line)"

definition month_token :: "pystr \<Rightarrow> bool" where
  "month_token m \<longleftrightarrow> (\<exists>a b c. m = [a, b, c] \<and> is_upper_az a \<and> is_lower_az b \<and> is_lower_az c)"

definition digits_token :: "nat \<Rightarrow> nat \<Rightarrow> pystr \<Rightarrow> bool" where
  "digits_token lo hi d \<longleftrightarrow> lo \<le> length d \<and> length d \<le> hi \<and> list_all is_decimal d"

definition time_token :: "pystr \<Rightarrow> bool" where
  "time_token t \<longleftrightarrow>
     (\<exists>hh mm ss. t = hh @ str '':'' @ mm @ str '':'' @ ss \<and>
        digits_token 2 2 hh \<and> digits_token 2 2 mm \<and> digits_token 2 2 ss)"

definition blank_run :: "pystr \<Rightarrow> bool" where
  "blank_run w \<longleftrightarrow> w \<noteq> [] \<and> list_all is_space w"

definition host_token :: "pystr \<Rightarrow> bool" where
  "host_token h \<longleftrightarrow> h \<noteq> [] \<and> list_all (\<lambda>c. \<not> is_space c) h"

definition body_text :: "pystr \<Rightarrow> bool" where
  "body_text b \<longleftrightarrow> list_all (\<lambda>c. c \<noteq> 10) b"

definition envelope_grammar :: "pystr \<Rightarrow> bool" where
  "envelope_grammar line \<longleftrightarrow>
     (\<exists>mon w1 day w2 tm w3 host w4 body.
        line = mon @ w1 @ day @ w2 @ tm @ w3 @ host @ w4 @ body \<and>
        month_token mon \<and> blank_run w1 \<and> digits_token 1 2 day \<and> blank_run w2 \<and>
        time_token tm \<and> blank_run w3 \<and> host_token host \<and> blank_run w4 \<and> body_text body)"

definition canonical_months :: "pystr list" where
  "canonical_months =
     map str [''Jan'', ''Feb'', ''Mar'', ''Apr'', ''May'', ''Jun'',
              ''Jul'', ''Aug'', ''Sep'', ''Oct'', ''Nov'', ''Dec'']"





section \<open>Timestamps, as the specification words them\<close>

text \<open>
  A well-formed \<open>date\<close> is \<open>YYYY-MM-DD\<close> in ASCII digits naming a day of the calendar, a
  well-formed \<open>time\<close> is \<open>HH:MM:SS\<close> below 24 hours, 60 minutes and 60 seconds.
  \<open>tz_text\<close> is the \<open>tz\<close> value once the surrounding whitespace and double quotes are
  trimmed (the empty text when the key is absent); \<open>tz_minutes\<close> is the offset a text
  \<open>[+-]HHMM\<close> denotes, in minutes, and \<open>offset_text\<close> its rendering \<open>+HH:MM\<close> or
  \<open>-HH:MM\<close>.
\<close>

definition wf_date :: "pystr \<Rightarrow> bool" where
  "wf_date d \<longleftrightarrow>
     length d = 10 \<and> ascii_digits (py_slice 0 4 d) \<and> d ! 4 = 45 \<and> ascii_digits (py_slice 5 7 d) \<and>
     d ! 7 = 45 \<and> ascii_digits (py_slice 8 10 d) \<and>
     1 \<le> ascii_nat (py_slice 0 4 d) \<and> 1 \<le> ascii_nat (py_slice 5 7 d) \<and> ascii_nat (py_slice 5 7 d) \<le> 12 \<and>
     1 \<le> ascii_nat (py_slice 8 10 d) \<and>
     int (ascii_nat (py_slice 8 10 d)) \<le>
       days_in_month (int (ascii_nat (py_slice 0 4 d))) (int (ascii_nat (py_slice 5 7 d)))"

definition wf_time :: "pystr \<Rightarrow> bool" where
  "wf_time t \<longleftrightarrow>
     length t = 8 \<and> ascii_digits (py_slice 0 2 t) \<and> t ! 2 = 58 \<and> ascii_digits (py_slice 3 5 t) \<and>
     t ! 5 = 58 \<and> ascii_digits (py_slice 6 8 t) \<and>
     ascii_nat (py_slice 0 2 t) \<le> 23 \<and> ascii_nat (py_slice 3 5 t) \<le> 59 \<and> ascii_nat (py_slice 6 8 t) \<le> 59"

definition tz_text :: "(pystr \<rightharpoonup> pystr) \<Rightarrow> pystr" where
  "tz_text kv =
     (case kv (str ''tz'') of
        None \<Rightarrow> []
      | Some tz \<Rightarrow> strip_chars (\<lambda>c. c = 34) (strip_chars is_space tz))"

definition tz_minutes :: "pystr \<Rightarrow> nat" where
  "tz_minutes z =
     60 * (10 * decimal_value (z ! 1) + decimal_value (z ! 2)) +
     (10 * decimal_value (z ! 3) + decimal_value (z ! 4))"

definition offset_text :: "pystr \<Rightarrow> pystr" where
  "offset_text z =
     (if hd z = 45 \<and> tz_minutes z \<noteq> 0 then str ''-'' else str ''+'') @
     zero_pad 2 (tz_minutes z div 60) @ str '':'' @ zero_pad 2 (tz_minutes z mod 60)"


section \<open>Values for the examples\<close>

text \<open>A library whose digest is the empty text and whose \<open>fromisoformat\<close> accepts the
  canonical shape only; the examples do not depend on either.\<close>

definition example_lib :: pylib where
  "example_lib = \<lparr>sha256_hexdigest = (\<lambda>bs. []), fromisoformat_ext = (\<lambda>s. None)\<rparr>"








section \<open>Character classes and the matcher\<close>

lemma is_decimal_iff:
  "is_decimal c \<longleftrightarrow> (\<exists>z \<in> set unicode_decimal_zeros. z \<le> c \<and> c < z + 10)"
  by (simp add: is_decimal_def list_ex_iff)

lemma decimal_zeros_ascii_or_high: "list_all (\<lambda>z. z = 48 \<or> 1632 \<le> z) unicode_decimal_zeros"
  by (simp add: unicode_decimal_zeros_def)

lemma decimal_ascii_or_high: "is_decimal c \<Longrightarrow> (48 \<le> c \<and> c \<le> 57) \<or> 1632 \<le> c"
proof -
  assume "is_decimal c"
  then obtain z where z: "z \<in> set unicode_decimal_zeros" "z \<le> c" "c < z + 10"
    unfolding is_decimal_iff by blast
  from z(1) have "z = 48 \<or> 1632 \<le> z"
    using decimal_zeros_ascii_or_high unfolding list_all_iff by blast
  with z show ?thesis by arith
qed

lemma decimal_not_sign: "is_decimal c \<Longrightarrow> c \<noteq> 43 \<and> c \<noteq> 45 \<and> c \<noteq> 95 \<and> c \<noteq> 58"
  using decimal_ascii_or_high [of c] by auto

lemma is_decimal_ascii: "48 \<le> c \<Longrightarrow> c \<le> 57 \<Longrightarrow> is_decimal c"
  by (simp add: is_decimal_def unicode_decimal_zeros_def)

lemma not_decimal_low: "c < 48 \<Longrightarrow> \<not> is_decimal c"
  using decimal_ascii_or_high [of c] by auto

lemma not_decimal_mid: "57 < c \<Longrightarrow> c < 1632 \<Longrightarrow> \<not> is_decimal c"
  using decimal_ascii_or_high [of c] by auto

lemma decimal_value_ascii: "48 \<le> c \<Longrightarrow> c \<le> 57 \<Longrightarrow> decimal_value c = c - 48"
  by (simp add: decimal_value_def unicode_decimal_zeros_def)

lemma is_space_cases:
  "is_space c \<Longrightarrow> c \<le> 32 \<or> c = 133 \<or> c = 160 \<or> c = 5760 \<or> (8192 \<le> c \<and> c \<le> 8287) \<or> c = 12288"
  unfolding is_space_def by linarith

lemma decimal_zeros_clear_of_spaces:
  "list_all (\<lambda>z. z = 48 \<or> (160 < z \<and> (5760 < z \<or> z + 9 < 5760) \<and> (8287 < z \<or> z + 9 < 8192) \<and>
      (12288 < z \<or> z + 9 < 12288))) unicode_decimal_zeros"
  by (simp add: unicode_decimal_zeros_def)

lemma decimal_not_space: "is_decimal c \<Longrightarrow> \<not> is_space c"
proof
  assume d: "is_decimal c" and s: "is_space c"
  from d obtain z where z: "z \<in> set unicode_decimal_zeros" "z \<le> c" "c < z + 10"
    unfolding is_decimal_iff by blast
  from z(1) have "z = 48 \<or> (160 < z \<and> (5760 < z \<or> z + 9 < 5760) \<and> (8287 < z \<or> z + 9 < 8192) \<and>
      (12288 < z \<or> z + 9 < 12288))"
    using decimal_zeros_clear_of_spaces unfolding list_all_iff by blast
  with z is_space_cases [OF s] show False by linarith
qed


fun item_ok :: "item \<Rightarrow> pystr \<Rightarrow> bool" where
  "item_ok (Rep cls lo hi) g \<longleftrightarrow>
     lo \<le> length g \<and> (case hi of None \<Rightarrow> True | Some h \<Rightarrow> length g \<le> h) \<and> list_all cls g"

lemma first_some_SomeD: "first_some f xs = Some y \<Longrightarrow> \<exists>x \<in> set xs. f x = Some y"
  by (induction xs) (auto split: option.splits)

lemma first_some_found: "x \<in> set xs \<Longrightarrow> f x \<noteq> None \<Longrightarrow> first_some f xs \<noteq> None"
  by (induction xs) (auto split: option.splits)

lemma greedy_max_le: "greedy_max cls hi s \<le> length (takeWhile cls s)"
  by (simp add: greedy_max_def Let_def split: option.splits)

lemma take_takeWhile_all:
  "k \<le> length (takeWhile cls s) \<Longrightarrow> list_all cls (take k s) \<and> length (take k s) = k"
proof -
  assume k: "k \<le> length (takeWhile cls s)"
  have "length (takeWhile cls s) \<le> length s" by (rule length_takeWhile_le)
  with k have len: "length (take k s) = k" by simp
  have "take k s = take k (takeWhile cls s @ dropWhile cls s)" by simp
  also have "\<dots> = take k (takeWhile cls s)" using k by (simp del: takeWhile_dropWhile_id)
  finally have "take k s = take k (takeWhile cls s)" .
  moreover have "list_all cls (take k (takeWhile cls s))"
    by (auto simp: list_all_iff dest: in_set_takeD set_takeWhileD)
  ultimately show ?thesis using len by simp
qed

lemma match_items_sound:
  "match_items e its s = Some gs \<Longrightarrow>
     list_all2 item_ok its gs \<and> (\<exists>r. s = concat gs @ r \<and> e r)"
proof (induction its arbitrary: s gs)
  case Nil
  then show ?case by (auto split: if_splits)
next
  case (Cons it its)
  obtain cls lo hi where it: "it = Rep cls lo hi" by (cases it)
  from Cons.prems obtain k where
    k: "k \<in> set (rev [lo ..< Suc (greedy_max cls hi s)])"
    and f: "map_option ((#) (take k s)) (match_items e its (drop k s)) = Some gs"
    using first_some_SomeD [of _ "rev [lo ..< Suc (greedy_max cls hi s)]" gs] unfolding it
    by (simp only: match_items.simps item.case) blast
  from f obtain gs' where gs: "gs = take k s # gs'" and m: "match_items e its (drop k s) = Some gs'"
    by auto
  from Cons.IH [OF m] obtain r where ih: "list_all2 item_ok its gs'" "drop k s = concat gs' @ r" "e r"
    by blast
  from k have lo: "lo \<le> k" and hi: "k \<le> greedy_max cls hi s" by auto
  from hi greedy_max_le [of cls hi s] have "k \<le> length (takeWhile cls s)" by simp
  then have tk: "list_all cls (take k s)" "length (take k s) = k"
    using take_takeWhile_all by blast+
  have "case hi of None \<Rightarrow> True | Some h \<Rightarrow> k \<le> h"
    using hi by (simp add: greedy_max_def Let_def split: option.splits)
  with lo tk have ok: "item_ok it (take k s)" by (simp add: it del: length_take split: option.splits)
  have "s = take k s @ drop k s" by simp
  with ih(2) have cs: "s = concat gs @ r" by (simp add: gs)
  show ?case
  proof (intro conjI exI)
    show "list_all2 item_ok (it # its) gs" using ok ih(1) by (simp add: gs)
    show "s = concat gs @ r" by (rule cs)
    show "e r" by (rule ih(3))
  qed
qed

lemma match_items_complete:
  "list_all2 item_ok its gs \<Longrightarrow> e r \<Longrightarrow> match_items e its (concat gs @ r) \<noteq> None"
proof (induction its arbitrary: gs)
  case Nil
  then show ?case by simp
next
  case (Cons it its)
  obtain cls lo hi where it: "it = Rep cls lo hi" by (cases it)
  from Cons.prems obtain g gs' where gs: "gs = g # gs'" and ok: "item_ok it g"
    and rest: "list_all2 item_ok its gs'"
    by (auto simp: list_all2_Cons1)
  let ?s = "concat gs @ r"
  let ?k = "length g"
  from ok have all: "list_all cls g" and lo: "lo \<le> ?k"
    and hi: "case hi of None \<Rightarrow> True | Some h \<Rightarrow> ?k \<le> h"
    by (simp_all add: it)
  have s: "?s = g @ (concat gs' @ r)" by (simp add: gs)
  from all have "takeWhile cls ?s = g @ takeWhile cls (concat gs' @ r)"
    unfolding s by (simp add: list_all_iff)
  then have "?k \<le> length (takeWhile cls ?s)" by simp
  with hi have "?k \<le> greedy_max cls hi ?s"
    by (simp add: greedy_max_def Let_def split: option.splits)
  with lo have mem: "?k \<in> set (rev [lo ..< Suc (greedy_max cls hi ?s)])" by auto
  have "drop ?k ?s = concat gs' @ r" "take ?k ?s = g" unfolding s by simp_all
  with Cons.IH [OF rest Cons.prems(2)]
  have "map_option ((#) (take ?k ?s)) (match_items e its (drop ?k ?s)) \<noteq> None" by simp
  with mem have "first_some (\<lambda>k. map_option ((#) (take k ?s)) (match_items e its (drop k ?s)))
      (rev [lo ..< Suc (greedy_max cls hi ?s)]) \<noteq> None"
    by (rule first_some_found)
  then show ?case by (simp add: it)
qed


section \<open>int() on decimal digits\<close>

lemma dropWhile_hd_id: "s = [] \<or> \<not> p (hd s) \<Longrightarrow> dropWhile p s = s"
  by (cases s) auto

lemma strip_chars_id: "s = [] \<or> (\<not> p (hd s) \<and> \<not> p (last s)) \<Longrightarrow> strip_chars p s = s"
proof (cases "s = []")
  case True
  then show ?thesis by (simp add: strip_chars_def rstrip_chars_def)
next
  case False
  assume "s = [] \<or> (\<not> p (hd s) \<and> \<not> p (last s))"
  with False have h: "\<not> p (hd s)" and l: "\<not> p (last s)" by auto
  from False l have "dropWhile p (rev s) = rev s"
    by (intro dropWhile_hd_id) (simp add: hd_rev)
  with h False show ?thesis by (simp add: strip_chars_def rstrip_chars_def dropWhile_hd_id)
qed

lemma int_digits_decimals:
  "list_all is_decimal g \<Longrightarrow> g \<noteq> [] \<or> prev \<Longrightarrow> int_digits acc prev g \<noteq> None"
  by (induction g arbitrary: acc prev) auto

lemma py_int_decimals:
  assumes "list_all is_decimal g" "g \<noteq> []" "length g \<le> int_max_str_digits"
  shows "py_int g \<noteq> None"
proof -
  from assms obtain c cs where g: "g = c # cs" by (cases g) auto
  from assms have "is_decimal (hd g)" "is_decimal (last g)"
    by (auto simp: list_all_iff)
  then have "\<not> int_space (hd g)" "\<not> int_space (last g)"
    using decimal_not_space by (auto simp: int_space_def)
  then have st: "strip_chars int_space g = g" by (simp add: strip_chars_id)
  from assms(1) g have c: "is_decimal c" by simp
  then have sg: "c \<noteq> 45" "c \<noteq> 43" using decimal_not_sign by blast+
  have "length (filter is_decimal g) \<le> length g" by (rule length_filter_le)
  with assms(3) have "\<not> length (filter is_decimal g) > int_max_str_digits" by linarith
  then have "int_unsigned g \<noteq> None"
    using int_digits_decimals [OF assms(1), of False 0] assms(2)
    by (simp add: int_unsigned_def)
  then show ?thesis
    unfolding py_int_def st using sg by (simp add: g)
qed


section \<open>The envelope pattern and the envelope grammar\<close>

lemma upt_14: "[0..<14] = [0, 1, 2, 3, 4, 5, 6, 7, 8, 9, 10, 11, 12, 13::nat]"
  by code_simp

lemma list_of_length_14:
  assumes "length gs = 14"
  shows "gs = [gs ! 0, gs ! 1, gs ! 2, gs ! 3, gs ! 4, gs ! 5, gs ! 6, gs ! 7, gs ! 8, gs ! 9,
               gs ! 10, gs ! 11, gs ! 12, gs ! 13]"
proof -
  have "map ((!) gs) [0..<length gs] = gs" by (rule map_nth)
  then have "gs = map ((!) gs) [0..<14]" by (simp only: assms)
  then show ?thesis by (simp only: upt_14 list.map)
qed

lemma item_ok_exact: "item_ok (Rep cls n (Some n)) g \<longleftrightarrow> length g = n \<and> list_all cls g"
  by auto

lemma item_ok_colon: "length g = 1 \<and> list_all is_colon g \<longleftrightarrow> g = [58]"
  by (cases g) (auto simp: is_colon_def)

lemma item_ok_plus: "item_ok (Rep cls lo None) g \<longleftrightarrow> lo \<le> length g \<and> list_all cls g"
  by simp

lemma item_ok_day: "item_ok (Rep cls 1 (Some 2)) g \<longleftrightarrow> 1 \<le> length g \<and> length g \<le> 2 \<and> list_all cls g"
  by simp

lemma syslog_items_explicit:
  "list_all2 item_ok SYSLOG_RE [g0, g1, g2, g3, g4, g5, g6, g7, g8, g9, g10, g11, g12, g13] \<longleftrightarrow>
     (length g0 = 1 \<and> list_all is_upper_az g0) \<and> (length g1 = 2 \<and> list_all is_lower_az g1) \<and>
     (1 \<le> length g2 \<and> list_all is_space g2) \<and>
     (1 \<le> length g3 \<and> length g3 \<le> 2 \<and> list_all is_decimal g3) \<and>
     (1 \<le> length g4 \<and> list_all is_space g4) \<and>
     (length g5 = 2 \<and> list_all is_decimal g5) \<and> g6 = [58] \<and>
     (length g7 = 2 \<and> list_all is_decimal g7) \<and> g8 = [58] \<and>
     (length g9 = 2 \<and> list_all is_decimal g9) \<and>
     (1 \<le> length g10 \<and> list_all is_space g10) \<and>
     (1 \<le> length g11 \<and> list_all not_space g11) \<and>
     (1 \<le> length g12 \<and> list_all is_space g12) \<and> (0 \<le> length g13 \<and> list_all not_newline g13)"
  unfolding SYSLOG_RE_def
  by (simp only: list_all2_Cons list_all2_Nil item_ok_colon item_ok_exact item_ok_plus item_ok_day
      simp_thms)


lemma length_SYSLOG_RE: "length SYSLOG_RE = 14"
  by (simp add: SYSLOG_RE_def)

lemma trimmed_no_final_newline: "trimmed raw = [] \<or> last (trimmed raw) \<noteq> 10"
proof (cases "dropWhile (\<lambda>c. c = 10) (rev raw)")
  case Nil
  then show ?thesis by (simp add: trimmed_def rstrip_chars_def)
next
  case (Cons c cs)
  then have "\<not> (c = 10)" using hd_dropWhile [of "\<lambda>c. c = 10" "rev raw"] by auto
  with Cons show ?thesis by (simp add: trimmed_def rstrip_chars_def)
qed

lemma one_char: "length g = 1 \<Longrightarrow> \<exists>a. g = [a]"
  by (cases g) auto

lemma two_chars: "length g = 2 \<Longrightarrow> \<exists>a b. g = [a, b]"
  by (cases g; cases "tl g") auto

lemma syslog_match_groups:
  assumes m: "match_items dollar_end SYSLOG_RE line = Some gs"
    and nl: "line = [] \<or> last line \<noteq> 10"
  shows "line = (gs ! 0 @ gs ! 1) @ gs ! 2 @ gs ! 3 @ gs ! 4 @
           (gs ! 5 @ gs ! 6 @ gs ! 7 @ gs ! 8 @ gs ! 9) @ gs ! 10 @ gs ! 11 @ gs ! 12 @ gs ! 13"
    and "month_token (gs ! 0 @ gs ! 1)" and "blank_run (gs ! 2)" and "digits_token 1 2 (gs ! 3)"
    and "blank_run (gs ! 4)" and "time_token (gs ! 5 @ gs ! 6 @ gs ! 7 @ gs ! 8 @ gs ! 9)"
    and "blank_run (gs ! 10)" and "host_token (gs ! 11)" and "blank_run (gs ! 12)"
    and "body_text (gs ! 13)"
proof -
  from match_items_sound [OF m] obtain r where
    ok: "list_all2 item_ok SYSLOG_RE gs" and cat: "line = concat gs @ r" and r: "dollar_end r"
    by blast
  from ok have "length gs = 14" using list_all2_lengthD length_SYSLOG_RE by fastforce
  then have gs: "gs = [gs ! 0, gs ! 1, gs ! 2, gs ! 3, gs ! 4, gs ! 5, gs ! 6, gs ! 7, gs ! 8,
      gs ! 9, gs ! 10, gs ! 11, gs ! 12, gs ! 13]"
    by (rule list_of_length_14)
  have "r = []"
  proof (rule ccontr)
    assume "r \<noteq> []"
    with r have "r = [10]" by (simp add: dollar_end_def)
    with cat have "line \<noteq> []" "last line = 10" by simp_all
    with nl show False by simp
  qed
  with cat have cat': "line = concat gs" by simp
  have e: "list_all2 item_ok SYSLOG_RE [gs ! 0, gs ! 1, gs ! 2, gs ! 3, gs ! 4, gs ! 5, gs ! 6,
      gs ! 7, gs ! 8, gs ! 9, gs ! 10, gs ! 11, gs ! 12, gs ! 13]"
    using ok gs by simp
  note x = e [unfolded syslog_items_explicit]
  have "concat gs = concat [gs ! 0, gs ! 1, gs ! 2, gs ! 3, gs ! 4, gs ! 5, gs ! 6,
      gs ! 7, gs ! 8, gs ! 9, gs ! 10, gs ! 11, gs ! 12, gs ! 13]"
    using gs by simp
  with cat' show "line = (gs ! 0 @ gs ! 1) @ gs ! 2 @ gs ! 3 @ gs ! 4 @
           (gs ! 5 @ gs ! 6 @ gs ! 7 @ gs ! 8 @ gs ! 9) @ gs ! 10 @ gs ! 11 @ gs ! 12 @ gs ! 13"
    by simp
  from x obtain a where a: "gs ! 0 = [a]" using one_char by blast
  from x obtain b c where bc: "gs ! 1 = [b, c]" using two_chars by blast
  from x a bc show "month_token (gs ! 0 @ gs ! 1)" by (simp add: month_token_def)
  from x show "blank_run (gs ! 2)" "blank_run (gs ! 4)" "blank_run (gs ! 10)" "blank_run (gs ! 12)"
    by (auto simp: blank_run_def)
  from x show "digits_token 1 2 (gs ! 3)" by (simp add: digits_token_def)
  from x have "digits_token 2 2 (gs ! 5)" "digits_token 2 2 (gs ! 7)" "digits_token 2 2 (gs ! 9)"
    "gs ! 6 = str '':''" "gs ! 8 = str '':''"
    by (simp_all add: digits_token_def str_def)
  then show "time_token (gs ! 5 @ gs ! 6 @ gs ! 7 @ gs ! 8 @ gs ! 9)"
    unfolding time_token_def
    by (intro exI [of _ "gs ! 5"] exI [of _ "gs ! 7"] exI [of _ "gs ! 9"]) simp
  from x show "host_token (gs ! 11)"
    by (auto simp: host_token_def list_all_iff not_space_def)
  from x show "body_text (gs ! 13)"
    by (auto simp: body_text_def list_all_iff not_newline_def)
qed

lemma syslog_re_match_grammar:
  assumes "syslog_re_match line = Some m" and "line = [] \<or> last line \<noteq> 10"
  shows "envelope_grammar line" and "g_mon m = take 3 line" and "digits_token 1 2 (g_day m)"
proof -
  from assms(1) obtain gs where m: "match_items dollar_end SYSLOG_RE line = Some gs"
    and mm: "m = \<lparr>g_mon = gs ! 0 @ gs ! 1, g_day = gs ! 3,
                g_time = gs ! 5 @ gs ! 6 @ gs ! 7 @ gs ! 8 @ gs ! 9,
                g_host = gs ! 11, g_body = gs ! 13\<rparr>"
    by (auto simp: syslog_re_match_def split: option.splits)
  note g = syslog_match_groups [OF m assms(2)]
  show "envelope_grammar line"
    unfolding envelope_grammar_def using g by blast
  from g(2) obtain a b c where "gs ! 0 @ gs ! 1 = [a, b, c]" unfolding month_token_def by blast
  then have "length (gs ! 0 @ gs ! 1) = 3" by (simp only: list.size length_Cons)
  then have "take 3 ((gs ! 0 @ gs ! 1) @ gs ! 2 @ gs ! 3 @ gs ! 4 @
           (gs ! 5 @ gs ! 6 @ gs ! 7 @ gs ! 8 @ gs ! 9) @ gs ! 10 @ gs ! 11 @ gs ! 12 @ gs ! 13) =
      gs ! 0 @ gs ! 1"
    by (simp del: append_assoc)
  with g(1) show "g_mon m = take 3 line" by (simp add: mm)
  from g(4) show "digits_token 1 2 (g_day m)" by (simp add: mm)
qed

lemma grammar_syslog_re_match:
  assumes "envelope_grammar line"
  shows "syslog_re_match line \<noteq> None"
proof -
  from assms obtain mon w1 day w2 tm w3 host w4 body where
    line: "line = mon @ w1 @ day @ w2 @ tm @ w3 @ host @ w4 @ body"
    and p: "month_token mon" "blank_run w1" "digits_token 1 2 day" "blank_run w2"
      "time_token tm" "blank_run w3" "host_token host" "blank_run w4" "body_text body"
    unfolding envelope_grammar_def by blast
  from p(1) obtain a b c where mon: "mon = [a, b, c]" and abc: "is_upper_az a" "is_lower_az b" "is_lower_az c"
    unfolding month_token_def by blast
  from p(5) obtain hh mm ss where tm: "tm = hh @ [58] @ mm @ [58] @ ss"
    and t: "digits_token 2 2 hh" "digits_token 2 2 mm" "digits_token 2 2 ss"
    unfolding time_token_def by (auto simp: str_def)
  let ?gs = "[[a], [b, c], w1, day, w2, hh, [58], mm, [58], ss, w3, host, w4, body]"
  have "list_all2 item_ok SYSLOG_RE ?gs"
    unfolding syslog_items_explicit using abc p t
    by (simp add: blank_run_def digits_token_def host_token_def body_text_def not_space_def
        not_newline_def list_all_iff Suc_le_eq)
  moreover have "dollar_end []" by (simp add: dollar_end_def)
  ultimately have "match_items dollar_end SYSLOG_RE (concat ?gs @ []) \<noteq> None"
    by (rule match_items_complete)
  moreover have "concat ?gs @ [] = line" by (simp add: line mon tm)
  ultimately show ?thesis by (simp add: syslog_re_match_def split: option.splits)
qed


section \<open>Decimal rendering\<close>

lemma ascii_nat_snoc: "ascii_nat (s @ [c]) = 10 * ascii_nat s + (c - 48)"
  by (simp add: ascii_nat_def)

lemma ascii_nat_bound: "ascii_digits s \<Longrightarrow> ascii_nat s < 10 ^ length s"
proof (induction s rule: rev_induct)
  case Nil
  show ?case by (simp add: ascii_nat_def)
next
  case (snoc c s)
  then have "ascii_nat s < 10 ^ length s" and "c - 48 < 10"
    by (auto simp: ascii_digits_def)
  then have "10 * ascii_nat s + (c - 48) < 10 * 10 ^ length s" by arith
  then show ?case by (simp add: ascii_nat_snoc)
qed

lemma length_dec_digits: "0 < k \<Longrightarrow> n < 10 ^ k \<Longrightarrow> length (dec_digits n) \<le> k"
proof (induction n arbitrary: k rule: dec_digits.induct)
  case (1 n)
  show ?case
  proof (cases "n < 10")
    case True
    with 1 show ?thesis by (simp add: dec_digits.simps [of n])
  next
    case False
    obtain j where k: "k = Suc j" using 1(2) by (cases k) auto
    from False 1(3) have "0 < j" unfolding k by (cases j) auto
    moreover from 1(3) have "n div 10 < 10 ^ j" unfolding k by (simp add: less_mult_imp_div_less)
    ultimately have "length (dec_digits (n div 10)) \<le> j" using 1(1) False by blast
    with False show ?thesis by (simp add: dec_digits.simps [of n] k)
  qed
qed

lemma dec_digits_step: "d < 10 \<Longrightarrow> 0 < a \<Longrightarrow> dec_digits (10 * a + d) = dec_digits a @ [48 + d]"
  by (subst dec_digits.simps) simp

lemma dec_digits_0: "dec_digits 0 = [48]"
  by (simp add: dec_digits.simps)

lemma zero_pad_step:
  assumes "d < 10" "0 < k" "a < 10 ^ k"
  shows "zero_pad (Suc k) (10 * a + d) = zero_pad k a @ [48 + d]"
proof (cases "a = 0")
  case True
  obtain j where k: "k = Suc j" using assms(2) by (cases k) auto
  from assms(1) have "dec_digits d = [48 + d]" by (simp add: dec_digits.simps)
  then show ?thesis
    by (simp add: True zero_pad_def dec_digits_0 k replicate_append_same)
next
  case False
  then have "0 < a" by simp
  from length_dec_digits [OF assms(2,3)] have "length (dec_digits a) \<le> k" .
  then have "Suc k - Suc (length (dec_digits a)) = k - length (dec_digits a)" by simp
  then show ?thesis
    by (simp add: zero_pad_def dec_digits_step [OF assms(1) \<open>0 < a\<close>])
qed

lemma zero_pad_ascii_nat: "ascii_digits s \<Longrightarrow> s \<noteq> [] \<Longrightarrow> zero_pad (length s) (ascii_nat s) = s"
proof (induction s rule: rev_induct)
  case Nil
  then show ?case by simp
next
  case (snoc c s)
  then have c: "48 \<le> c" "c \<le> 57" and ds: "ascii_digits s" by (auto simp: ascii_digits_def)
  then have d: "c - 48 < 10" "48 + (c - 48) = c" by auto
  show ?case
  proof (cases "s = []")
    case True
    with d show ?thesis
      by (simp add: ascii_nat_def zero_pad_def dec_digits.simps [of "c - 48"])
  next
    case False
    with snoc ds have ih: "zero_pad (length s) (ascii_nat s) = s" by blast
    from False have "0 < length s" by simp
    from zero_pad_step [OF d(1) this ascii_nat_bound [OF ds]] ih d(2)
    show ?thesis by (simp add: ascii_nat_snoc)
  qed
qed


section \<open>The tz pattern\<close>

lemma tz_re_fullmatch_iff:
  "tz_re_fullmatch z \<longleftrightarrow>
     (\<exists>s c1 c2 c3 c4. z = [s, c1, c2, c3, c4] \<and> is_sign s \<and> is_decimal c1 \<and> is_decimal c2 \<and>
        is_decimal c3 \<and> is_decimal c4)"
proof
  assume "tz_re_fullmatch z"
  then obtain gs where m: "match_items full_end TZ_RE z = Some gs"
    by (auto simp: tz_re_fullmatch_def)
  from match_items_sound [OF m] obtain r where
    ok: "list_all2 item_ok TZ_RE gs" and cat: "z = concat gs @ r" and r: "full_end r"
    by blast
  from ok obtain g0 g1 where gs: "gs = [g0, g1]"
    and g0: "length g0 = 1" "list_all is_sign g0" and g1: "length g1 = 4" "list_all is_decimal g1"
    unfolding TZ_RE_def by (auto simp: list_all2_Cons1)
  from g0 obtain s where s: "g0 = [s]" by (cases g0) auto
  from g1(1) obtain c1 c2 c3 c4 where c: "g1 = [c1, c2, c3, c4]"
    by (auto simp: eval_nat_numeral length_Suc_conv)
  from cat r have "z = [s, c1, c2, c3, c4]" by (simp add: gs s c full_end_def)
  with g0 g1 s c show "\<exists>s c1 c2 c3 c4. z = [s, c1, c2, c3, c4] \<and> is_sign s \<and> is_decimal c1 \<and>
      is_decimal c2 \<and> is_decimal c3 \<and> is_decimal c4"
    by auto
next
  assume "\<exists>s c1 c2 c3 c4. z = [s, c1, c2, c3, c4] \<and> is_sign s \<and> is_decimal c1 \<and> is_decimal c2 \<and>
        is_decimal c3 \<and> is_decimal c4"
  then obtain s c1 c2 c3 c4 where z: "z = [s, c1, c2, c3, c4]"
    and p: "is_sign s" "is_decimal c1" "is_decimal c2" "is_decimal c3" "is_decimal c4"
    by blast
  have "list_all2 item_ok TZ_RE [[s], [c1, c2, c3, c4]]"
    using p by (simp add: TZ_RE_def)
  moreover have "full_end []" by (simp add: full_end_def)
  ultimately have "match_items full_end TZ_RE (concat [[s], [c1, c2, c3, c4]] @ []) \<noteq> None"
    by (rule match_items_complete)
  then show "tz_re_fullmatch z" by (simp add: tz_re_fullmatch_def z)
qed

lemma tz_norm_of_text:
  "tz_norm_of kv =
     (if tz_re_fullmatch (tz_text kv)
      then Some (take 3 (tz_text kv) @ str '':'' @ drop 3 (tz_text kv)) else None)"
proof -
  have e: "\<not> tz_re_fullmatch []" by (simp add: tz_re_fullmatch_iff)
  have s: "strip_chars p [] = []" for p :: "nat \<Rightarrow> bool"
    by (simp add: strip_chars_def rstrip_chars_def)
  show ?thesis
    by (auto simp: tz_norm_of_def tz_text_def Let_def e s split: option.splits)
qed

lemma py_int_two_decimals:
  assumes "is_decimal c1" "is_decimal c2"
  shows "py_int [c1, c2] = Some (int (10 * decimal_value c1 + decimal_value c2))"
proof -
  from assms have "\<not> int_space c1" "\<not> int_space c2"
    using decimal_not_space by (auto simp: int_space_def)
  then have st: "strip_chars int_space [c1, c2] = [c1, c2]"
    by (intro strip_chars_id) simp
  from assms(1) have sg: "c1 \<noteq> 45" "c1 \<noteq> 43" using decimal_not_sign by blast+
  have "length (filter is_decimal [c1, c2]) \<le> int_max_str_digits"
    by (simp add: int_max_str_digits_def)
  then have "int_unsigned [c1, c2] = Some (10 * decimal_value c1 + decimal_value c2)"
    using assms by (simp add: int_unsigned_def)
  then show ?thesis unfolding py_int_def st using sg by simp
qed


section \<open>Rendering a timestamp\<close>

lemma format_offset_minutes:
  "format_offset (int m * 60000000) =
     str ''+'' @ zero_pad 2 (m div 60) @ str '':'' @ zero_pad 2 (m mod 60)"
  "0 < m \<Longrightarrow> format_offset (- (int m * 60000000)) =
     str ''-'' @ zero_pad 2 (m div 60) @ str '':'' @ zero_pad 2 (m mod 60)"
proof -
  have a: "nat \<bar>int m * 60000000\<bar> = m * 60000000" "nat \<bar>- (int m * 60000000)\<bar> = m * 60000000"
    by (simp_all add: nat_mult_distrib abs_mult)
  have h: "m * 60000000 div 3600000000 = m div 60"
  proof -
    have "m * 60000000 div (60 * 60000000) = m div 60" by (rule div_mult_mult2) simp
    then show ?thesis by simp
  qed
  have mm: "m * 60000000 mod 3600000000 div 60000000 = m mod 60"
  proof -
    have "m * 60000000 mod (60 * 60000000) = (m mod 60) * 60000000"
      by (simp add: mult_mod_left)
    then show ?thesis by simp
  qed
  have s: "m * 60000000 mod 60000000 div 1000000 = 0" by simp
  have u: "m * 60000000 mod 1000000 = 0"
  proof -
    have "m * 60000000 = (m * 60) * 1000000" by simp
    then show ?thesis by (metis mod_mult_self2_is_0)
  qed
  show "format_offset (int m * 60000000) =
     str ''+'' @ zero_pad 2 (m div 60) @ str '':'' @ zero_pad 2 (m mod 60)"
    unfolding format_offset_def Let_def a h mm s u by simp
  assume "0 < m"
  then have "- (int m * 60000000) < 0" by simp
  then show "format_offset (- (int m * 60000000)) =
     str ''-'' @ zero_pad 2 (m div 60) @ str '':'' @ zero_pad 2 (m mod 60)"
    unfolding format_offset_def Let_def a h mm s u by simp
qed

lemma isoformat_tzinfo:
  "dt_tzinfo dt = None \<Longrightarrow>
     isoformat (dt\<lparr>dt_tzinfo := Some off\<rparr>) = isoformat dt @ format_offset off"
  by (simp add: isoformat_def)

lemma render_ts_naive: "render_ts dt None = Some (isoformat dt)"
  by (simp add: render_ts_def)

lemma render_ts_offset:
  assumes z: "tz_re_fullmatch z"
  shows "render_ts dt (Some (take 3 z @ str '':'' @ drop 3 z)) =
     (if tz_minutes z < 1440
      then Some (isoformat (dt\<lparr>dt_tzinfo := Some ((if hd z = 43 then 1 else - 1) * (int (tz_minutes z) * 60000000))\<rparr>))
      else None)"
proof -
  from z obtain s c1 c2 c3 c4 where zz: "z = [s, c1, c2, c3, c4]"
    and p: "is_sign s" "is_decimal c1" "is_decimal c2" "is_decimal c3" "is_decimal c4"
    unfolding tz_re_fullmatch_iff by blast
  let ?hh = "10 * decimal_value c1 + decimal_value c2"
  let ?mm = "10 * decimal_value c3 + decimal_value c4"
  have tzn: "take 3 z @ str '':'' @ drop 3 z = [s, c1, c2, 58, c3, c4]"
    by (simp add: zz str_def)
  have i1: "py_int (py_slice 1 3 [s, c1, c2, 58, c3, c4]) = Some (int ?hh)"
    using py_int_two_decimals [OF p(2,3)] by (simp add: py_slice_def)
  have i2: "py_int (py_slice 4 6 [s, c1, c2, 58, c3, c4]) = Some (int ?mm)"
    using py_int_two_decimals [OF p(4,5)] by (simp add: py_slice_def)
  have m: "tz_minutes z = 60 * ?hh + ?mm" by (simp add: tz_minutes_def zz)
  have tzh: "timezone_hm (sg * int ?hh) (sg * int ?mm) =
      (if tz_minutes z < 1440 then Some (sg * (int (tz_minutes z) * 60000000)) else None)"
    if "sg = 1 \<or> sg = - 1" for sg :: int
  proof -
    have "(sg * int ?hh * 3600 + sg * int ?mm * 60) * 1000000 = sg * (int (tz_minutes z) * 60000000)"
      unfolding m by (simp add: algebra_simps)
    moreover have "- 86400000000 < sg * (int (tz_minutes z) * 60000000) \<and>
        sg * (int (tz_minutes z) * 60000000) < 86400000000 \<longleftrightarrow> tz_minutes z < 1440"
      using that by auto
    ultimately show ?thesis by (simp add: timezone_hm_def Let_def)
  qed
  have core: "(case py_int (py_slice 1 3 [s, c1, c2, 58, c3, c4]) of
        None \<Rightarrow> None
      | Some hh \<Rightarrow>
          (case py_int (py_slice 4 6 [s, c1, c2, 58, c3, c4]) of
             None \<Rightarrow> None
           | Some mm \<Rightarrow>
               (case timezone_hm (sg * hh) (sg * mm) of
                  None \<Rightarrow> None
                | Some off \<Rightarrow> Some (isoformat (dt\<lparr>dt_tzinfo := Some off\<rparr>))))) =
      (if tz_minutes z < 1440
       then Some (isoformat (dt\<lparr>dt_tzinfo := Some (sg * (int (tz_minutes z) * 60000000))\<rparr>))
       else None)"
    if "sg = 1 \<or> sg = - 1" for sg :: int
    by (simp only: i1 i2 option.case tzh [OF that] split: if_splits) simp
  have hz: "hd z = s" by (simp add: zz)
  have sg: "(if s = 43 then 1 else - 1) = (1::int) \<or> (if s = 43 then 1 else - 1) = (- 1::int)"
    by simp
  show ?thesis
    unfolding tzn render_ts_def hz
    by (simp only: option.case list.simps if_False Let_def list.sel core [OF sg])
qed

lemma render_ts_offset_text:
  assumes z: "tz_re_fullmatch z" and n: "dt_tzinfo dt = None"
  shows "render_ts dt (Some (take 3 z @ str '':'' @ drop 3 z)) =
     (if tz_minutes z < 1440 then Some (isoformat dt @ offset_text z) else None)"
proof -
  from z have s: "hd z = 43 \<or> hd z = 45"
    unfolding tz_re_fullmatch_iff by (auto simp: is_sign_def)
  have "format_offset ((if hd z = 43 then 1 else - 1) * (int (tz_minutes z) * 60000000)) =
      offset_text z"
  proof (cases "hd z = 43")
    case True
    then show ?thesis by (simp add: format_offset_minutes(1) offset_text_def)
  next
    case False
    with s have h: "hd z = 45" by simp
    show ?thesis
    proof (cases "tz_minutes z = 0")
      case True
      with format_offset_minutes(1) [of 0] show ?thesis by (simp add: offset_text_def h)
    next
      case False
      then have "0 < tz_minutes z" by simp
      from format_offset_minutes(2) [OF this] show ?thesis by (simp add: offset_text_def h False)
    qed
  qed
  then show ?thesis
    unfolding render_ts_offset [OF z] by (simp add: isoformat_tzinfo [OF n])
qed


section \<open>fromisoformat and isoformat on well-formed input\<close>

lemma list10: "length d = 10 \<Longrightarrow> \<exists>a0 a1 a2 a3 a4 a5 a6 a7 a8 a9. d = [a0, a1, a2, a3, a4, a5, a6, a7, a8, a9]"
  by (auto simp: eval_nat_numeral length_Suc_conv)

lemma list8: "length t = 8 \<Longrightarrow> \<exists>a0 a1 a2 a3 a4 a5 a6 a7. t = [a0, a1, a2, a3, a4, a5, a6, a7]"
  by (auto simp: eval_nat_numeral length_Suc_conv)

lemma zero_pad_2: "ascii_digits [a, b] \<Longrightarrow> zero_pad 2 (ascii_nat [a, b]) = [a, b]"
  using zero_pad_ascii_nat [of "[a, b]"] by (simp add: numeral_2_eq_2)

lemma zero_pad_4: "ascii_digits [a, b, c, e] \<Longrightarrow> zero_pad 4 (ascii_nat [a, b, c, e]) = [a, b, c, e]"
  using zero_pad_ascii_nat [of "[a, b, c, e]"] by (simp add: eval_nat_numeral)

lemma iso_roundtrip:
  assumes d: "wf_date d" and t: "wf_time t"
  shows "\<exists>dt. fromisoformat ext (d @ str ''T'' @ t) = Some dt \<and> dt_tzinfo dt = None \<and>
           isoformat dt = d @ str ''T'' @ t"
proof -
  from d have "length d = 10" by (simp add: wf_date_def)
  from list10 [OF this] obtain y1 y2 y3 y4 x1 m1 m2 x2 d1 d2 where
    dd: "d = [y1, y2, y3, y4, x1, m1, m2, x2, d1, d2]" by blast
  from t have "length t = 8" by (simp add: wf_time_def)
  from list8 [OF this] obtain h1 h2 x3 n1 n2 x4 s1 s2 where
    tt: "t = [h1, h2, x3, n1, n2, x4, s1, s2]" by blast
  let ?Y = "[y1, y2, y3, y4]" and ?M = "[m1, m2]" and ?D = "[d1, d2]"
  let ?h = "[h1, h2]" and ?n = "[n1, n2]" and ?s = "[s1, s2]"
  from d have dx: "x1 = 45" "x2 = 45" and dg: "ascii_digits ?Y" "ascii_digits ?M" "ascii_digits ?D"
    and dv: "1 \<le> ascii_nat ?Y" "1 \<le> ascii_nat ?M" "ascii_nat ?M \<le> 12" "1 \<le> ascii_nat ?D"
      "int (ascii_nat ?D) \<le> days_in_month (int (ascii_nat ?Y)) (int (ascii_nat ?M))"
    by (simp_all add: wf_date_def dd py_slice_def)
  from t have tx: "x3 = 58" "x4 = 58" and tg: "ascii_digits ?h" "ascii_digits ?n" "ascii_digits ?s"
    and tv: "ascii_nat ?h \<le> 23" "ascii_nat ?n \<le> 59" "ascii_nat ?s \<le> 59"
    by (simp_all add: wf_time_def tt py_slice_def)
  let ?whole = "d @ str ''T'' @ t"
  have whole: "?whole = [y1, y2, y3, y4, 45, m1, m2, 45, d1, d2, 84, h1, h2, 58, n1, n2, 58, s1, s2]"
    by (simp add: dd tt dx tx str_def)
  have shape: "iso_shape ?whole"
    unfolding whole using dg tg by (simp add: iso_shape_def py_slice_def)
  from ascii_nat_bound [OF dg(1)] have y: "ascii_nat ?Y \<le> 9999" by simp
  let ?dt = "\<lparr>dt_year = ascii_nat ?Y, dt_month = ascii_nat ?M, dt_day = ascii_nat ?D,
      dt_hour = ascii_nat ?h, dt_minute = ascii_nat ?n, dt_second = ascii_nat ?s,
      dt_microsecond = 0, dt_tzinfo = None\<rparr>"
  have fields: "iso_fields ?whole = Some ?dt"
    unfolding whole iso_fields_def using dv tv y
    by (simp add: py_slice_def mk_datetime_def)
  from shape fields have "fromisoformat ext ?whole = Some ?dt"
    by (simp add: fromisoformat_def)
  moreover have "isoformat ?dt = ?whole"
    unfolding whole
    by (simp add: isoformat_def zero_pad_4 [OF dg(1)] zero_pad_2 [OF dg(2)] zero_pad_2 [OF dg(3)]
        zero_pad_2 [OF tg(1)] zero_pad_2 [OF tg(2)] zero_pad_2 [OF tg(3)] str_def)
  ultimately show ?thesis by auto
qed


section \<open>The completed ledger\<close>

lemma slice_last_short: "length xs \<le> n \<Longrightarrow> slice_last n xs = xs"
  by (simp add: slice_last_def)

lemma length_slice_last: "length (slice_last n xs) = min n (length xs)"
  by (simp add: slice_last_def)

lemma slice_last_snoc: "0 < n \<Longrightarrow> slice_last n (slice_last n xs @ [y]) = slice_last n (xs @ [y])"
proof (cases "length xs \<le> n")
  case True
  then show ?thesis by (simp add: slice_last_short)
next
  case False
  assume "0 < n"
  with False have a: "Suc (length xs - (length xs - n)) - n = 1" and b: "Suc (length xs) - n = Suc (length xs - n)"
    by arith+
  show ?thesis by (simp add: slice_last_def a b)
qed

lemma ledger_mark_completed:
  "ledger (mark_completed now ck path inode sz mtime) =
     slice_last 5000 (ledger ck @ [new_completed_rec now path inode sz mtime])"
  by (simp add: mark_completed_def ledger_def Let_def slice_last_short split: option.splits)

lemma completed_mark_completed_call: "completed (mark_completed_call ck c) \<noteq> None"
  by (cases c) (simp add: mark_completed_def Let_def)

lemma ledger_mark_completed_call:
  "ledger (mark_completed_call ck c) = slice_last 5000 (ledger ck @ [rec_of_call c])"
  by (cases c) (simp add: ledger_mark_completed)

lemma ledger_mark_completed_calls:
  "ledger (mark_completed_calls ck calls) =
     (if calls = [] then ledger ck else slice_last 5000 (ledger ck @ map rec_of_call calls))"
proof (induction calls rule: rev_induct)
  case Nil
  show ?case by (simp add: mark_completed_calls_def)
next
  case (snoc c calls)
  have step: "ledger (mark_completed_calls ck (calls @ [c])) =
      slice_last 5000 (ledger (mark_completed_calls ck calls) @ [rec_of_call c])"
    by (simp add: mark_completed_calls_def ledger_mark_completed_call)
  show ?case
  proof (cases "calls = []")
    case True
    with step show ?thesis by (simp add: mark_completed_calls_def)
  next
    case False
    with snoc have "ledger (mark_completed_calls ck calls) =
        slice_last 5000 (ledger ck @ map rec_of_call calls)" by simp
    with step show ?thesis by (simp add: slice_last_snoc)
  qed
qed

lemma is_completed_loop_iff: "is_completed_loop k items \<longleftrightarrow> (\<exists>r \<in> set items. cr_key r = k)"
  by (induction items) auto

lemma last_slice_last: "0 < n \<Longrightarrow> xs \<noteq> [] \<Longrightarrow> last (slice_last n xs) = last xs"
proof -
  assume "0 < n" and "xs \<noteq> []"
  then have "length xs - n < length xs" by (cases xs) auto
  then show ?thesis by (simp add: slice_last_def)
qed

lemma slice_last_nonempty: "0 < n \<Longrightarrow> xs \<noteq> [] \<Longrightarrow> slice_last n xs \<noteq> []"
proof -
  assume "0 < n" and "xs \<noteq> []"
  then have "length xs - n < length xs" by (cases xs) auto
  then show ?thesis by (simp add: slice_last_def)
qed

lemma is_completed_after_mark:
  "is_completed (mark_completed now ck path inode sz mtime) path inode sz mtime"
proof -
  let ?r = "new_completed_rec now path inode sz mtime"
  let ?l = "slice_last 5000 (ledger ck @ [?r])"
  have "?l \<noteq> []" by (rule slice_last_nonempty) simp_all
  moreover have "last ?l = ?r" by (simp add: last_slice_last)
  ultimately have "?r \<in> set ?l" using last_in_set by metis
  moreover have "cr_key ?r = completed_key path inode sz mtime"
    by (simp add: new_completed_rec_def)
  ultimately show ?thesis
    unfolding is_completed_def is_completed_loop_iff ledger_mark_completed by blast
qed

text \<open>
  C8.  Starting from an empty ledger, after 5001 calls of \<open>mark_completed\<close> the ledger
  holds exactly the records of the last 5000 calls, in the order of the calls (the record
  of the first call is the one evicted); after any number \<open>n\<close> of calls it holds the
  records of the last \<open>min n 5000\<close> calls; and after every call of \<open>mark_completed\<close>, from
  any state, the ledger has at most 5000 entries.
\<close>

theorem C8_ledger_cap:
  "(ledger ck = [] \<and> length calls = 5001 \<longrightarrow>
      completed (mark_completed_calls ck calls) = Some (map rec_of_call (tl calls)) \<and>
      length (ledger (mark_completed_calls ck calls)) = 5000)
   \<and> (ledger ck = [] \<longrightarrow>
      ledger (mark_completed_calls ck calls) = map rec_of_call (drop (length calls - 5000) calls))
   \<and> length (ledger (mark_completed now ck' path inode sz mtime)) \<le> 5000"
proof (intro conjI impI)
  show "length (ledger (mark_completed now ck' path inode sz mtime)) \<le> 5000"
    by (simp add: ledger_mark_completed length_slice_last)
next
  assume e: "ledger ck = []"
  then show "ledger (mark_completed_calls ck calls) =
      map rec_of_call (drop (length calls - 5000) calls)"
    by (simp add: ledger_mark_completed_calls slice_last_def drop_map)
next
  assume a: "ledger ck = [] \<and> length calls = 5001"
  then obtain c cs where calls: "calls = c # cs" and len: "length cs = 5000"
    by (cases calls) auto
  have l: "ledger (mark_completed_calls ck calls) = map rec_of_call (tl calls)"
    using a by (simp add: ledger_mark_completed_calls slice_last_def calls len)
  have "completed (mark_completed_calls ck calls) \<noteq> None"
    unfolding calls mark_completed_calls_def
    by (induction cs rule: rev_induct) (simp_all add: completed_mark_completed_call)
  with l show "completed (mark_completed_calls ck calls) = Some (map rec_of_call (tl calls))"
    by (auto simp: ledger_def)
  from l show "length (ledger (mark_completed_calls ck calls)) = 5000"
    by (simp add: calls len)
qed

theorem C8_ledger_cap_witness:
  "ledger (default_checkpoint 0) = [] \<and>
   length (replicate 5001 (7::int, str ''/data/fortigate/fortigate.log-20240101-000000'', 11::int, 22::int, 33::int)) = 5001 \<and>
   completed (mark_completed_calls (default_checkpoint 0)
      (replicate 5001 (7, str ''/data/fortigate/fortigate.log-20240101-000000'', 11, 22, 33))) =
     Some (map rec_of_call
      (replicate 5000 (7, str ''/data/fortigate/fortigate.log-20240101-000000'', 11, 22, 33)))"
proof -
  have e: "ledger (default_checkpoint 0) = []"
    by (simp add: ledger_def default_checkpoint_def)
  show ?thesis
    using C8_ledger_cap [of "default_checkpoint 0"
        "replicate 5001 (7, str ''/data/fortigate/fortigate.log-20240101-000000'', 11, 22, 33)"]
    by (simp add: e)
qed

lemma ledger_calls_no_eviction:
  "length (ledger ck) + length calls \<le> 5000 \<Longrightarrow>
     ledger (mark_completed_calls ck calls) = ledger ck @ map rec_of_call calls"
  by (simp add: ledger_mark_completed_calls slice_last_short)

text \<open>
  C10.  \<open>mark_completed\<close> never looks for an existing record: every call appends one new
  record (and then keeps the last 5000), also when the ledger already holds a record with
  the same key; so \<open>k\<close> calls with one identity that fit below the cap add \<open>k\<close> records
  carrying that key.  \<open>is_completed\<close> is true exactly when some ledger record carries the
  key, and after marking one identity twice it is true.
\<close>

theorem C10_no_dedup:
  "ledger (mark_completed now ck path inode sz mtime) =
      slice_last 5000 (ledger ck @ [new_completed_rec now path inode sz mtime])
   \<and> (length (ledger ck) < 5000 \<longrightarrow>
      ledger (mark_completed now ck path inode sz mtime) =
        ledger ck @ [new_completed_rec now path inode sz mtime])
   \<and> ((\<forall>c \<in> set calls. snd c = (path, inode, sz, mtime)) \<and>
        length (ledger ck) + length calls \<le> 5000 \<longrightarrow>
      length (filter (\<lambda>r. cr_key r = completed_key path inode sz mtime)
                (ledger (mark_completed_calls ck calls))) =
        length (filter (\<lambda>r. cr_key r = completed_key path inode sz mtime) (ledger ck)) +
        length calls)
   \<and> (is_completed ck path inode sz mtime \<longleftrightarrow>
        (\<exists>r \<in> set (ledger ck). cr_key r = completed_key path inode sz mtime))
   \<and> is_completed
        (mark_completed now2 (mark_completed now ck path inode sz mtime) path inode sz mtime)
        path inode sz mtime"
proof (intro conjI impI)
  show "ledger (mark_completed now ck path inode sz mtime) =
      slice_last 5000 (ledger ck @ [new_completed_rec now path inode sz mtime])"
    by (rule ledger_mark_completed)
next
  assume "length (ledger ck) < 5000"
  then show "ledger (mark_completed now ck path inode sz mtime) =
        ledger ck @ [new_completed_rec now path inode sz mtime]"
    by (simp add: ledger_mark_completed slice_last_short)
next
  let ?k = "completed_key path inode sz mtime"
  assume a: "(\<forall>c \<in> set calls. snd c = (path, inode, sz, mtime)) \<and>
        length (ledger ck) + length calls \<le> 5000"
  then have "\<forall>c \<in> set calls. cr_key (rec_of_call c) = ?k"
    by (auto simp: new_completed_rec_def)
  then have "filter (\<lambda>r. cr_key r = ?k) (map rec_of_call calls) = map rec_of_call calls"
    by (induction calls) auto
  with a show "length (filter (\<lambda>r. cr_key r = ?k) (ledger (mark_completed_calls ck calls))) =
        length (filter (\<lambda>r. cr_key r = ?k) (ledger ck)) + length calls"
    by (simp add: ledger_calls_no_eviction)
next
  show "is_completed ck path inode sz mtime \<longleftrightarrow>
        (\<exists>r \<in> set (ledger ck). cr_key r = completed_key path inode sz mtime)"
    by (simp add: is_completed_def is_completed_loop_iff)
next
  show "is_completed
        (mark_completed now2 (mark_completed now ck path inode sz mtime) path inode sz mtime)
        path inode sz mtime"
    by (rule is_completed_after_mark)
qed

theorem C10_no_dedup_witness:
  "length (ledger (default_checkpoint 0)) < 5000 \<and>
   snd (7::int, str ''f'', 11::int, 22::int, 33::int) = (str ''f'', 11, 22, 33) \<and>
   snd (8::int, str ''f'', 11::int, 22::int, 33::int) = (str ''f'', 11, 22, 33) \<and>
   length (filter (\<lambda>r. cr_key r = completed_key (str ''f'') 11 22 33)
      (ledger (mark_completed_calls (default_checkpoint 0)
         [(7, str ''f'', 11, 22, 33), (8, str ''f'', 11, 22, 33)]))) = 2 \<and>
   is_completed (mark_completed 8 (mark_completed 7 (default_checkpoint 0)
          (str ''f'') 11 22 33) (str ''f'') 11 22 33) (str ''f'') 11 22 33"
proof -
  have e: "ledger (default_checkpoint 0) = []"
    by (simp add: ledger_def default_checkpoint_def)
  show ?thesis
    using C10_no_dedup [of 7 "default_checkpoint 0" "str ''f''" 11 22 33
        "[(7, str ''f'', 11, 22, 33), (8, str ''f'', 11, 22, 33)]" 8]
    by (simp add: e)
qed


section \<open>The key/value scan\<close>

lemma skip_spaces_idem: "skip_spaces (skip_spaces s) = skip_spaces s"
  by (induction s) (auto simp: skip_spaces_def)

lemma parse_kv_loop_skip: "parse_kv_loop out (skip_spaces s) = parse_kv_loop out s"
  by (subst parse_kv_loop.simps, subst (2) parse_kv_loop.simps) (simp only: skip_spaces_idem)

lemma scan_quoted_quote: "scan_quoted v (34 # rest) = (v, rest)"
  by (cases rest) simp_all

lemma key_scan:
  assumes "key \<noteq> []" "61 \<notin> set key" "32 \<notin> set key"
  shows "skip_spaces (key @ 61 # rest) = key @ 61 # rest"
    and "takeWhile (\<lambda>c. c \<noteq> 61 \<and> c \<noteq> 32) (key @ 61 # rest) = key"
    and "dropWhile (\<lambda>c. c \<noteq> 61 \<and> c \<noteq> 32) (key @ 61 # rest) = 61 # rest"
proof -
  from assms show "skip_spaces (key @ 61 # rest) = key @ 61 # rest"
    by (cases key) (auto simp: skip_spaces_def)
  from assms have "\<forall>c \<in> set key. c \<noteq> 61 \<and> c \<noteq> 32" by auto
  then show "takeWhile (\<lambda>c. c \<noteq> 61 \<and> c \<noteq> 32) (key @ 61 # rest) = key"
    and "dropWhile (\<lambda>c. c \<noteq> 61 \<and> c \<noteq> 32) (key @ 61 # rest) = 61 # rest"
    by (simp_all add: takeWhile_append2 dropWhile_append2)
qed

lemma parse_kv_loop_token:
  assumes "key \<noteq> []" "61 \<notin> set key" "32 \<notin> set key"
  shows "parse_kv_loop out (key @ 61 # rest) =
     (if rest \<noteq> [] \<and> hd rest = 34
      then parse_kv_loop (out(key \<mapsto> fst (scan_quoted [] (tl rest)))) (snd (scan_quoted [] (tl rest)))
      else parse_kv_loop (out(key \<mapsto> takeWhile (\<lambda>c. c \<noteq> 32) rest)) (dropWhile (\<lambda>c. c \<noteq> 32) rest))"
  using assms
  by (subst parse_kv_loop.simps) (simp add: key_scan Let_def parse_kv_loop_skip)

lemma parse_kv_loop_Nil: "parse_kv_loop out [] = out"
  by (subst parse_kv_loop.simps) (simp add: skip_spaces_def)

text \<open>
  C4.  \<open>parse_kv\<close> on the body \<open>a=1 b="x\"y" c=\<close> returns exactly the mapping of
  \<open>a\<close> to \<open>1\<close>, \<open>b\<close> to \<open>x"y\<close> and \<open>c\<close> to the empty string.  Inside a quoted
  value a backslash followed by a character consumes both and emits that character; a
  double quote that is not escaped ends the value; and for a key followed by \<open>=\<close>, the
  value after an opening quote is the one the quoted scan returns, and the unquoted value
  at the end of input or before a space is the empty string.
\<close>

theorem C4_parse_kv:
  "parse_kv (str ''a=1 b='' @ [34] @ str ''x'' @ [92, 34] @ str ''y'' @ [34] @ str '' c='') =
      [str ''a'' \<mapsto> str ''1'', str ''b'' \<mapsto> str ''x'' @ [34] @ str ''y'', str ''c'' \<mapsto> []]
   \<and> scan_quoted v (92 # c # rest) = scan_quoted (v @ [c]) rest
   \<and> scan_quoted v (34 # rest) = (v, rest)
   \<and> (key \<noteq> [] \<and> 61 \<notin> set key \<and> 32 \<notin> set key \<longrightarrow>
        parse_kv_loop out (key @ 61 # 34 # rest) =
          parse_kv_loop (out(key \<mapsto> fst (scan_quoted [] rest))) (snd (scan_quoted [] rest)) \<and>
        parse_kv_loop out (key @ [61]) = out(key \<mapsto> []) \<and>
        parse_kv_loop out (key @ 61 # 32 # rest) = parse_kv_loop (out(key \<mapsto> [])) rest)"
proof (intro conjI impI)
  show "parse_kv (str ''a=1 b='' @ [34] @ str ''x'' @ [92, 34] @ str ''y'' @ [34] @ str '' c='') =
      [str ''a'' \<mapsto> str ''1'', str ''b'' \<mapsto> str ''x'' @ [34] @ str ''y'', str ''c'' \<mapsto> []]"
    by (simp add: parse_kv_def str_def parse_kv_loop.simps skip_spaces_def Let_def)
  show "scan_quoted v (92 # c # rest) = scan_quoted (v @ [c]) rest" by simp
  show "scan_quoted v (34 # rest) = (v, rest)" by (rule scan_quoted_quote)
next
  assume k: "key \<noteq> [] \<and> 61 \<notin> set key \<and> 32 \<notin> set key"
  then show "parse_kv_loop out (key @ 61 # 34 # rest) =
          parse_kv_loop (out(key \<mapsto> fst (scan_quoted [] rest))) (snd (scan_quoted [] rest))"
    by (simp add: parse_kv_loop_token)
  from k show "parse_kv_loop out (key @ [61]) = out(key \<mapsto> [])"
    by (simp add: parse_kv_loop_token parse_kv_loop_Nil)
  from k have "parse_kv_loop out (key @ 61 # 32 # rest) = parse_kv_loop (out(key \<mapsto> [])) (32 # rest)"
    by (simp add: parse_kv_loop_token)
  also have "\<dots> = parse_kv_loop (out(key \<mapsto> [])) (skip_spaces (32 # rest))"
    by (simp only: parse_kv_loop_skip)
  also have "\<dots> = parse_kv_loop (out(key \<mapsto> [])) (skip_spaces rest)"
    by (simp add: skip_spaces_def)
  also have "\<dots> = parse_kv_loop (out(key \<mapsto> [])) rest"
    by (simp only: parse_kv_loop_skip)
  finally show "parse_kv_loop out (key @ 61 # 32 # rest) = parse_kv_loop (out(key \<mapsto> [])) rest" .
qed

theorem C4_parse_kv_witness:
  "str ''c'' \<noteq> [] \<and> 61 \<notin> set (str ''c'') \<and> 32 \<notin> set (str ''c'') \<and>
   parse_kv (str ''c='') = [str ''c'' \<mapsto> []] \<and>
   parse_kv (str ''c= '') = [str ''c'' \<mapsto> []]"
  using C4_parse_kv [where key = "str ''c''" and out = Map.empty and rest = "[]"]
  by (simp add: parse_kv_def str_def parse_kv_loop_Nil)


section \<open>The line parser\<close>

lemma MONTHS_None_iff: "MONTHS k = None \<longleftrightarrow> k \<notin> set canonical_months"
  unfolding MONTHS_def canonical_months_def map_of_eq_None_iff by simp

lemma MONTHS_nonzero: "MONTHS k = Some v \<Longrightarrow> v \<noteq> 0"
  unfolding MONTHS_def by (drule map_of_SomeD) auto

lemma has_binary_garbage_non_text: "has_binary_garbage line \<longleftrightarrow> non_text line"
proof -
  have "is_bad_control = (\<lambda>c. c < 9 \<or> (11 \<le> c \<and> c \<le> 31))"
    by (auto simp: is_bad_control_def fun_eq_iff)
  then show ?thesis by (simp add: has_binary_garbage_def non_text_def Let_def)
qed

lemma day_int_defined:
  assumes "syslog_re_match (trimmed raw) = Some m"
  shows "py_int (g_day m) \<noteq> None"
proof -
  from syslog_re_match_grammar(3) [OF assms trimmed_no_final_newline]
  have d: "1 \<le> length (g_day m)" "length (g_day m) \<le> 2" "list_all is_decimal (g_day m)"
    by (simp_all add: digits_token_def)
  from d(1) have "g_day m \<noteq> []" by auto
  moreover from d(2) have "length (g_day m) \<le> int_max_str_digits"
    by (simp add: int_max_str_digits_def)
  ultimately show ?thesis using d(3) by (intro py_int_decimals)
qed

lemma parse_cases:
  "parse_fortigate_line lib raw y =
     (if trimmed raw = [] then Inr (None, Some (dlq_of ''empty_line'' raw))
      else if non_text (trimmed raw) then Inr (None, Some (dlq_of ''non_text_or_binary'' raw))
      else if \<not> envelope_grammar (trimmed raw)
        then Inr (None, Some (dlq_of ''syslog_header_parse_fail'' raw))
      else if take 3 (trimmed raw) \<notin> set canonical_months
        then Inr (None, Some (dlq_of ''invalid_month'' raw))
      else Inr (Some (mark_partial (build_event lib raw (g_host (the (syslog_re_match (trimmed raw))))
              (parse_event_ts (fromisoformat_ext lib)
                 (parse_kv (g_body (the (syslog_re_match (trimmed raw))))) y
                 (the (MONTHS (take 3 (trimmed raw))))
                 (the (py_int (g_day (the (syslog_re_match (trimmed raw))))))
                 (g_time (the (syslog_re_match (trimmed raw)))))
              (parse_kv (g_body (the (syslog_re_match (trimmed raw))))))), None))"
proof (cases "syslog_re_match (trimmed raw)")
  case None
  then have "\<not> envelope_grammar (trimmed raw)"
    using grammar_syslog_re_match by blast
  with None show ?thesis
    by (simp add: parse_fortigate_line_def trimmed_def [symmetric] Let_def
        has_binary_garbage_non_text)
next
  case (Some m)
  note g = syslog_re_match_grammar [OF Some trimmed_no_final_newline]
  from day_int_defined [OF Some] obtain day where day: "py_int (g_day m) = Some day" by blast
  show ?thesis
  proof (cases "MONTHS (g_mon m)")
    case None
    with Some g day show ?thesis
      by (simp add: parse_fortigate_line_def trimmed_def [symmetric] Let_def
          has_binary_garbage_non_text MONTHS_None_iff [symmetric])
  next
    case (Some mon_i)
    then have nz: "mon_i \<noteq> 0" by (rule MONTHS_nonzero)
    from Some have "\<not> take 3 (trimmed raw) \<notin> set canonical_months"
      using g(2) MONTHS_None_iff [of "g_mon m"] by simp
    with Some \<open>syslog_re_match (trimmed raw) = Some m\<close> g day nz show ?thesis
      by (simp add: parse_fortigate_line_def trimmed_def [symmetric] Let_def
          has_binary_garbage_non_text)
  qed
qed

lemma parse_returns:
  "\<exists>ev dl. parse_fortigate_line lib raw y = Inr (ev, dl) \<and> (ev = None) \<noteq> (dl = None)"
  by (simp add: parse_cases)

text \<open>
  C1.  For every raw line and every contextual year, \<open>parse_fortigate_line\<close> returns a pair
  (no exception leaves it), and exactly one component of the pair is not \<open>None\<close>.
\<close>

theorem C1_event_xor_dlq:
  "\<exists>ev dl. parse_fortigate_line lib raw y = Inr (ev, dl) \<and> (ev = None) \<noteq> (dl = None)"
  by (rule parse_returns)



subsection \<open>The rules at concrete lines\<close>









section \<open>Timestamp resolution\<close>

lemma fallback_ts_out_of_range:
  assumes "tz_re_fullmatch z" "1440 \<le> tz_minutes z"
  shows "fallback_ts y m dd ft (Some (take 3 z @ str '':'' @ drop 3 z)) = None"
proof -
  have "render_ts dt (Some (take 3 z @ str '':'' @ drop 3 z)) = None" for dt
    using assms by (simp add: render_ts_offset)
  then show ?thesis
    by (simp add: fallback_ts_def split: list.splits option.splits)
qed

lemma parse_event_ts_override:
  assumes k: "kv (str ''date'') = Some d" "kv (str ''time'') = Some t"
    and w: "wf_date d" "wf_time t"
  shows "parse_event_ts ext kv y m dd ft =
     (if \<not> tz_re_fullmatch (tz_text kv) then Some (d @ str ''T'' @ t)
      else if tz_minutes (tz_text kv) < 1440
        then Some (d @ str ''T'' @ t @ offset_text (tz_text kv))
      else None)"
proof -
  from iso_roundtrip [OF w, of ext] obtain dt where
    dt: "fromisoformat ext (d @ str ''T'' @ t) = Some dt" "dt_tzinfo dt = None"
      "isoformat dt = d @ str ''T'' @ t"
    by blast
  from w have ne: "d \<noteq> []" "t \<noteq> []" by (auto simp: wf_date_def wf_time_def)
  have ex: "explicit_ts ext kv tzn = render_ts dt tzn" for tzn
    by (simp add: explicit_ts_def k ne dt(1))
  show ?thesis
  proof (cases "tz_re_fullmatch (tz_text kv)")
    case False
    then show ?thesis
      by (simp add: parse_event_ts_def Let_def tz_norm_of_text ex render_ts_naive dt(3))
  next
    case True
    show ?thesis
    proof (cases "tz_minutes (tz_text kv) < 1440")
      case lt: True
      with True show ?thesis
        by (simp add: parse_event_ts_def Let_def tz_norm_of_text ex
            render_ts_offset_text [OF True dt(2)] dt(3))
    next
      case ge: False
      then have "1440 \<le> tz_minutes (tz_text kv)" by simp
      from fallback_ts_out_of_range [OF True this] True ge show ?thesis
        by (simp add: parse_event_ts_def Let_def tz_norm_of_text ex
            render_ts_offset_text [OF True dt(2)])
    qed
  qed
qed

lemma wf_example: "wf_date (str ''2023-12-31'')" "wf_time (str ''23:59:59'')"
  by (simp_all add: wf_date_def wf_time_def py_slice_def ascii_digits_def ascii_nat_def
      days_in_month_def str_def)

lemma strip_plain:
  "\<not> is_space (hd s) \<Longrightarrow> \<not> is_space (last s) \<Longrightarrow> hd s \<noteq> 34 \<Longrightarrow> last s \<noteq> 34 \<Longrightarrow>
     strip_chars (\<lambda>c. c = 34) (strip_chars is_space s) = s"
  by (simp add: strip_chars_id)

lemma tz_examples:
  "strip_chars (\<lambda>c. c = 34) (strip_chars is_space (str ''+0530'')) = str ''+0530''"
  "strip_chars (\<lambda>c. c = 34) (strip_chars is_space (str ''+9999'')) = str ''+9999''"
  "tz_re_fullmatch (str ''+0530'')" "tz_re_fullmatch (str ''+9999'')"
  "tz_minutes (str ''+0530'') = 330" "tz_minutes (str ''+9999'') = 6039"
  "offset_text (str ''+0530'') = str ''+05:30''"
proof -
  show "strip_chars (\<lambda>c. c = 34) (strip_chars is_space (str ''+0530'')) = str ''+0530''"
    "strip_chars (\<lambda>c. c = 34) (strip_chars is_space (str ''+9999'')) = str ''+9999''"
    by (rule strip_plain; simp add: str_def is_space_def)+
  show "tz_re_fullmatch (str ''+0530'')" "tz_re_fullmatch (str ''+9999'')"
    by (simp_all add: tz_re_fullmatch_iff str_def is_sign_def is_decimal_ascii)
  show m: "tz_minutes (str ''+0530'') = 330" and "tz_minutes (str ''+9999'') = 6039"
    by (simp_all add: tz_minutes_def str_def decimal_value_ascii)
  show "offset_text (str ''+0530'') = str ''+05:30''"
    unfolding offset_text_def m
    by (simp add: str_def zero_pad_def dec_digits.simps)
qed

text \<open>
  C5 (as stated) fails: with well-formed \<open>date\<close> and \<open>time\<close> keys and the \<open>tz\<close> value
  \<open>+9999\<close>, which matches \<open>[+-]HHMM\<close>, the resolved timestamp is absent; the offset is
  not applied and the timestamp is not left offset-naive either.
\<close>

theorem C5_tz_out_of_range_counterexample:
  "wf_date (str ''2023-12-31'') \<and> wf_time (str ''23:59:59'') \<and> tz_re_fullmatch (str ''+9999'') \<and>
   parse_event_ts (fromisoformat_ext example_lib)
     [str ''date'' \<mapsto> str ''2023-12-31'', str ''time'' \<mapsto> str ''23:59:59'',
      str ''tz'' \<mapsto> str ''+9999'']
     2024 1 5 (str ''03:04:05'') = None"
proof -
  let ?kv = "[str ''date'' \<mapsto> str ''2023-12-31'', str ''time'' \<mapsto> str ''23:59:59'',
      str ''tz'' \<mapsto> str ''+9999'']"
  have k: "?kv (str ''date'') = Some (str ''2023-12-31'')"
    "?kv (str ''time'') = Some (str ''23:59:59'')"
    by (simp_all add: str_def)
  have tz: "tz_text ?kv = str ''+9999''"
    by (simp add: tz_text_def tz_examples(2))
  have r: "parse_event_ts (fromisoformat_ext example_lib) ?kv 2024 1 5 (str ''03:04:05'') =
      (if \<not> tz_re_fullmatch (tz_text ?kv) then Some (str ''2023-12-31'' @ str ''T'' @ str ''23:59:59'')
       else if tz_minutes (tz_text ?kv) < 1440
         then Some (str ''2023-12-31'' @ str ''T'' @ str ''23:59:59'' @ offset_text (tz_text ?kv))
       else None)"
    by (rule parse_event_ts_override [OF k wf_example])
  show ?thesis
    unfolding r tz by (simp add: tz_examples wf_example)
qed

text \<open>
  C5 (amended).  When the \<open>date\<close> and \<open>time\<close> keys are present and well-formed, the
  resolved timestamp does not depend on the envelope or the contextual year: it is
  \<open>date\<close>, \<open>T\<close>, \<open>time\<close>, offset-naive when the trimmed \<open>tz\<close> does not match
  \<open>[+-]HHMM\<close>, and followed by the offset \<open>+HH:MM\<close> or \<open>-HH:MM\<close> when it matches and
  denotes less than 24 hours; a matching \<open>tz\<close> of 24 hours or more leaves the timestamp
  absent.  With \<open>date=2023-12-31\<close>, \<open>time=23:59:59\<close> and \<open>tz=+0530\<close> the timestamp is
  \<open>2023-12-31T23:59:59+05:30\<close>.
\<close>

theorem C5_timestamp_override:
  "(kv (str ''date'') = Some d \<and> kv (str ''time'') = Some t \<and> wf_date d \<and> wf_time t \<longrightarrow>
      (\<not> tz_re_fullmatch (tz_text kv) \<longrightarrow>
         parse_event_ts ext kv y m dd ft = Some (d @ str ''T'' @ t)) \<and>
      (tz_re_fullmatch (tz_text kv) \<and> tz_minutes (tz_text kv) < 1440 \<longrightarrow>
         parse_event_ts ext kv y m dd ft = Some (d @ str ''T'' @ t @ offset_text (tz_text kv))) \<and>
      (tz_re_fullmatch (tz_text kv) \<and> 1440 \<le> tz_minutes (tz_text kv) \<longrightarrow>
         parse_event_ts ext kv y m dd ft = None))
   \<and> (kv (str ''date'') = Some (str ''2023-12-31'') \<and> kv (str ''time'') = Some (str ''23:59:59'') \<and>
       kv (str ''tz'') = Some (str ''+0530'') \<longrightarrow>
      parse_event_ts ext kv y m dd ft = Some (str ''2023-12-31T23:59:59+05:30''))"
proof (intro conjI impI)
  assume a: "kv (str ''date'') = Some (str ''2023-12-31'') \<and>
      kv (str ''time'') = Some (str ''23:59:59'') \<and> kv (str ''tz'') = Some (str ''+0530'')"
  then have tz: "tz_text kv = str ''+0530''" by (simp add: tz_text_def tz_examples(1))
  have r: "parse_event_ts ext kv y m dd ft =
      (if \<not> tz_re_fullmatch (tz_text kv) then Some (str ''2023-12-31'' @ str ''T'' @ str ''23:59:59'')
       else if tz_minutes (tz_text kv) < 1440
         then Some (str ''2023-12-31'' @ str ''T'' @ str ''23:59:59'' @ offset_text (tz_text kv))
       else None)"
    by (rule parse_event_ts_override [OF _ _ wf_example]) (use a in simp_all)
  have j: "str ''2023-12-31'' @ str ''T'' @ str ''23:59:59'' @ str ''+05:30'' =
      str ''2023-12-31T23:59:59+05:30''"
    by (simp add: str_def)
  show "parse_event_ts ext kv y m dd ft = Some (str ''2023-12-31T23:59:59+05:30'')"
    unfolding r tz by (simp add: tz_examples j)
qed (simp_all add: parse_event_ts_override)

theorem C5_timestamp_override_witness:
  "wf_date (str ''2023-12-31'') \<and> wf_time (str ''23:59:59'') \<and>
   parse_event_ts (fromisoformat_ext example_lib)
     [str ''date'' \<mapsto> str ''2023-12-31'', str ''time'' \<mapsto> str ''23:59:59'',
      str ''tz'' \<mapsto> str ''+0530'']
     2024 1 5 (str ''03:04:05'') = Some (str ''2023-12-31T23:59:59+05:30'') \<and>
   parse_event_ts (fromisoformat_ext example_lib)
     [str ''date'' \<mapsto> str ''2023-12-31'', str ''time'' \<mapsto> str ''23:59:59'']
     2024 1 5 (str ''03:04:05'') = Some (str ''2023-12-31T23:59:59'')"
proof -
  let ?kv1 = "[str ''date'' \<mapsto> str ''2023-12-31'', str ''time'' \<mapsto> str ''23:59:59'',
      str ''tz'' \<mapsto> str ''+0530'']"
  let ?kv2 = "[str ''date'' \<mapsto> str ''2023-12-31'', str ''time'' \<mapsto> str ''23:59:59'']"
  have k1: "?kv1 (str ''date'') = Some (str ''2023-12-31'') \<and>
      ?kv1 (str ''time'') = Some (str ''23:59:59'') \<and> ?kv1 (str ''tz'') = Some (str ''+0530'')"
    by (simp add: str_def)
  have k2: "?kv2 (str ''date'') = Some (str ''2023-12-31'') \<and>
      ?kv2 (str ''time'') = Some (str ''23:59:59'') \<and>
      wf_date (str ''2023-12-31'') \<and> wf_time (str ''23:59:59'')"
    by (simp add: wf_example) (simp add: str_def)
  have "tz_text ?kv2 = []" by (simp add: tz_text_def str_def)
  then have nm: "\<not> tz_re_fullmatch (tz_text ?kv2)" by (simp add: tz_re_fullmatch_iff)
  have j: "str ''2023-12-31'' @ str ''T'' @ str ''23:59:59'' = str ''2023-12-31T23:59:59''"
    by (simp add: str_def)
  have a: "parse_event_ts (fromisoformat_ext example_lib) ?kv1 2024 1 5 (str ''03:04:05'') =
      Some (str ''2023-12-31T23:59:59+05:30'')"
    using C5_timestamp_override [of ?kv1 "str ''2023-12-31''" "str ''23:59:59''"
        "fromisoformat_ext example_lib" 2024 1 5 "str ''03:04:05''"] k1
    by blast
  have b: "parse_event_ts (fromisoformat_ext example_lib) ?kv2 2024 1 5 (str ''03:04:05'') =
      Some (str ''2023-12-31'' @ str ''T'' @ str ''23:59:59'')"
    using C5_timestamp_override [of ?kv2 "str ''2023-12-31''" "str ''23:59:59''"
        "fromisoformat_ext example_lib" 2024 1 5 "str ''03:04:05''"] k2 nm
    by blast
  from a b show ?thesis by (simp only: wf_example j simp_thms)
qed


section \<open>Counters along the pipeline\<close>






















section \<open>The counters never decrease\<close>






section \<open>Offsets reported by the rotated-file reader\<close>

lemma endswith_gz: "endswith (p @ str ''.gz'') (str ''.gz'')"
  by (simp add: endswith_def)

lemma gz_offsets:
  "map (\<lambda>x. sp_offset (snd x)) (read_whole_file_lines (p @ str ''.gz'') st data) =
     replicate (length (text_lines data)) None"
  by (simp add: read_whole_file_lines_def endswith_gz gz_lines_def Let_def map_replicate_const
      comp_def)

text \<open>
  C6 fails on the code.  In a plain file of the four bytes \<open>FF 0A 41 0A\<close> the second line
  starts at byte 2, and \<open>read_whole_file_lines\<close> reports offset 4 for it: the invalid byte
  is decoded to U+FFFD, which is counted as the three bytes of its encoding.  In the file
  \<open>a\r\nb\n\<close> the second line starts at byte 3 and offset 2 is reported: text mode
  delivers \<open>\r\n\<close> as \<open>\n\<close>.  For a path ending in \<open>.gz\<close> the offset of every line is
  \<open>None\<close>.
\<close>

theorem C6_offsets_not_byte_exact:
  "map (\<lambda>x. (fst x, sp_offset (snd x)))
      (read_whole_file_lines (str ''/data/fortigate/fortigate.log-20240101-000000'') (1, 4, 0)
         [0xFF, 0x0A, 0x41, 0x0A]) =
     [([0xFFFD, 10], Some 0), (str ''A'' @ [10], Some 4)]
   \<and> drop 2 [0xFF, 0x0A, 0x41, 0x0A] = utf8_encode (str ''A'' @ [10])
   \<and> map (\<lambda>x. (fst x, sp_offset (snd x)))
      (read_whole_file_lines (str ''/data/fortigate/fortigate.log-20240101-000000'') (1, 5, 0)
         [0x61, 0x0D, 0x0A, 0x62, 0x0A]) =
     [(str ''a'' @ [10], Some 0), (str ''b'' @ [10], Some 2)]
   \<and> drop 3 [0x61, 0x0D, 0x0A, 0x62, 0x0A] = utf8_encode (str ''b'' @ [10])
   \<and> map (\<lambda>x. sp_offset (snd x)) (read_whole_file_lines (p @ str ''.gz'') st data) =
     replicate (length (text_lines data)) None"
proof (intro conjI)
  show "map (\<lambda>x. sp_offset (snd x)) (read_whole_file_lines (p @ str ''.gz'') st data) =
     replicate (length (text_lines data)) None"
    by (rule gz_offsets)
qed (simp_all add: read_whole_file_lines_def endswith_def str_def text_lines_def utf8_decode_def
      utf8_decode_nat.simps utf8_encode_def utf8_encode_char_def Let_def)


section \<open>Saving and loading the checkpoint\<close>







section \<open>Routing of the lines of a rotated file\<close>

















section \<open>Rotation of the active file\<close>






end
